theory Spec2Isabelle
  imports Complex_Main "HOL-Library.Sublist"
begin

section \<open>HTML extraction (\<^verbatim>\<open>extract_html_from_response\<close>, app.py and app/utils/helpers.py)\<close>

text \<open>
  A Python \<^verbatim>\<open>str\<close> is modelled as a \<^typ>\<open>string\<close> holding its UTF-8 encoding. The three
  patterns of the extractor consist of ASCII characters and of \<^verbatim>\<open>[\s\S]\<close>, which accepts
  every character, so matching on the encoding finds the same substrings as matching on
  code points. None of the letters of the patterns (b, c, d, e, h, l, m, o, p, t, y) has a
  non-ASCII case variant under \<^verbatim>\<open>re.IGNORECASE\<close>, so case-insensitive comparison is
  comparison after ASCII lower-casing.
\<close>

definition ascii_lower :: "char \<Rightarrow> char" where
  "ascii_lower c =
     (if (65::nat) \<le> of_char c \<and> (of_char c :: nat) \<le> 90
      then char_of ((of_char c :: nat) + 32) else c)"

text \<open>A literal (no meta-characters) matches at the start of the text, ignoring case.\<close>

fun ci_prefix :: "string \<Rightarrow> string \<Rightarrow> bool" where
  "ci_prefix [] s = True"
| "ci_prefix (p # ps) [] = False"
| "ci_prefix (p # ps) (c # cs) = (ascii_lower p = ascii_lower c \<and> ci_prefix ps cs)"

text \<open>
  \<^verbatim>\<open>[\s\S]*?close\<close> anchored at the start of the text: the lazy quantifier consumes as few
  characters as possible, so the result is the shortest prefix that ends with a match
  of \<open>close\<close>.
\<close>

fun lazy_until :: "string \<Rightarrow> string \<Rightarrow> string option" where
  "lazy_until cl [] = (if ci_prefix cl [] then Some [] else None)"
| "lazy_until cl (c # cs) =
     (if ci_prefix cl (c # cs) then Some (take (length cl) (c # cs))
      else map_option ((#) c) (lazy_until cl cs))"

text \<open>The pattern \<^verbatim>\<open>open[\s\S]*?close\<close> anchored at the start of the text.\<close>

definition match_at :: "string \<Rightarrow> string \<Rightarrow> string \<Rightarrow> string option" where
  "match_at opn cl s =
     (if ci_prefix opn s
      then map_option ((@) (take (length opn) s)) (lazy_until cl (drop (length opn) s))
      else None)"

text \<open>
  \<^verbatim>\<open>re.compile(open + '[\s\S]*?' + close, re.IGNORECASE).search(text)\<close>: the match at the
  leftmost position where the pattern matches; the value is \<^verbatim>\<open>match.group(0)\<close>.
\<close>

fun re_search :: "string \<Rightarrow> string \<Rightarrow> string \<Rightarrow> string option" where
  "re_search opn cl [] = match_at opn cl []"
| "re_search opn cl (c # cs) =
     (case match_at opn cl (c # cs) of
        Some m \<Rightarrow> Some m
      | None \<Rightarrow> re_search opn cl cs)"

definition doctype_line :: string where
  "doctype_line = ''<!DOCTYPE html>'' @ [CHR 0x0A]"

text \<open>
  The shell around a bare body fragment. The title is the UTF-8 encoding of the four
  characters U+7FA4 U+804A U+65E5 U+62A5.
\<close>

definition report_title :: string where
  "report_title =
     [CHR 0xE7, CHR 0xBE, CHR 0xA4, CHR 0xE8, CHR 0x81, CHR 0x8A,
      CHR 0xE6, CHR 0x97, CHR 0xA5, CHR 0xE6, CHR 0x8A, CHR 0xA5]"

definition charset_meta :: string where
  "charset_meta = ''<meta charset='' @ [CHR 0x22] @ ''UTF-8'' @ [CHR 0x22] @ ''>''"

definition shell_head :: string where
  "shell_head =
     ''<!DOCTYPE html>'' @ [CHR 0x0A] @
     ''<html>'' @ [CHR 0x0A] @
     ''<head>'' @ [CHR 0x0A] @
     ''    '' @ charset_meta @ [CHR 0x0A] @
     ''    <title>'' @ report_title @ ''</title>'' @ [CHR 0x0A] @
     ''</head>'' @ [CHR 0x0A]"

definition shell_tail :: string where
  "shell_tail = [CHR 0x0A] @ ''</html>''"

definition extract_html_from_response :: "string \<Rightarrow> string option" where
  "extract_html_from_response response_text =
     (case re_search ''<!DOCTYPE html>'' ''</html>'' response_text of
        Some m \<Rightarrow> Some m
      | None \<Rightarrow>
         (case re_search ''<html'' ''</html>'' response_text of
            Some m \<Rightarrow> Some (doctype_line @ m)
          | None \<Rightarrow>
             (case re_search ''<body'' ''</body>'' response_text of
                Some m \<Rightarrow> Some (shell_head @ m @ shell_tail)
              | None \<Rightarrow> None)))"


text \<open>
  A pattern \<^verbatim>\<open>open[\s\S]*?close\<close> has a match somewhere in the text when \<open>open\<close> occurs
  (ignoring case) at some offset and \<open>close\<close> occurs at or after the end of that occurrence.
\<close>

definition pattern_occurs :: "string \<Rightarrow> string \<Rightarrow> string \<Rightarrow> bool" where
  "pattern_occurs opn cl t \<longleftrightarrow>
     (\<exists>i j. i + length opn \<le> j \<and> j \<le> length t \<and>
            ci_prefix opn (drop i t) \<and> ci_prefix cl (drop j t))"

text \<open>
  An executable check that a literal does not occur (ignoring case) at any offset inside
  \<open>pre\<close> of the text \<open>pre @ rest\<close>; it serves to evaluate first-occurrence conditions on
  concrete texts.
\<close>

fun no_occ :: "string \<Rightarrow> string \<Rightarrow> string \<Rightarrow> bool" where
  "no_occ p [] rest = True"
| "no_occ p (c # pre) rest = (\<not> ci_prefix p (c # pre @ rest) \<and> no_occ p pre rest)"

section \<open>The world outside the program\<close>

text \<open>
  The program acts on a file system, on browsers driven through Playwright, on external
  commands, on the default web browser and on an HTTP service. The world is a state: the
  files that exist (with their contents; a file is identified with its path string) and the
  log of the external actions performed so far, each with the exception it raised, if any,
  and the file system it left behind. How the outside reacts is an environment given as
  functions of the action and of the world in which it happens; every theorem below
  quantifies over it.
\<close>

type_synonym path = string

type_synonym fs = "path \<rightharpoonup> string"

datatype exn =
  ValueError | TypeError | ImportError | SubprocessError | FileNotFoundError | OtherError

datatype api = SyncApi | AsyncApi

text \<open>The calls to the Playwright browser, with the arguments the program passes.\<close>

datatype pw_call =
    Launch "string list"
  | NewPage "(int \<times> int \<times> real) option"
  | Goto string "int option" "string option"
  | WaitForLoadState string "int option"
  | WaitForTimeout int
  | WaitForSelector string int
  | Evaluate string
  | Screenshot path bool "bool option"
  | Close

datatype event =
    EvPw pw_call
  | EvRun "string list"
  | EvWebOpen string
  | EvWrite path string
  | EvRemove path
  | EvMakeDirs path
  | EvPost string "string option" "path option" "path option"

record world =
  files :: fs
  log :: "(event \<times> exn option \<times> fs) list"

text \<open>The body of an HTTP reply: \<open>None\<close> when \<^verbatim>\<open>response.json()\<close> raises.\<close>

record reply =
  status_code :: int
  json_success :: "bool option"
  json_image_path :: "path option"

record env =
  abspath :: "path \<Rightarrow> path"
  isabs :: "path \<Rightarrow> bool"
  join :: "path \<Rightarrow> path \<Rightarrow> path"
  splitext_root :: "path \<Rightarrow> path"
  now :: string
  service_url :: string
  find_spec :: "string \<Rightarrow> bool"
  import_raises :: "string \<Rightarrow> exn option"
  pw_raises :: "api \<Rightarrow> pw_call \<Rightarrow> world \<Rightarrow> exn option"
  pw_effect :: "api \<Rightarrow> pw_call \<Rightarrow> world \<Rightarrow> fs"
  raises :: "event \<Rightarrow> world \<Rightarrow> exn option"
  effect :: "event \<Rightarrow> world \<Rightarrow> fs"
  utf8_decodable :: "string \<Rightarrow> bool"
  post_reply :: "event \<Rightarrow> world \<Rightarrow> reply"

text \<open>
  An action of the program on the world. Writing a file that succeeds stores the content,
  removing a file that succeeds deletes it and one that fails leaves the files as they
  are; what every other action does to the files is up to the environment.
\<close>

definition do_event :: "env \<Rightarrow> event \<Rightarrow> world \<Rightarrow> exn option \<times> world" where
  "do_event E ev w =
     (let r = raises E ev w;
          fs' = (case ev of
                   EvWrite p c \<Rightarrow> if r = None then (files w)(p \<mapsto> c) else effect E ev w
                 | EvRemove p \<Rightarrow> if r = None then (files w)(p := None) else files w
                 | _ \<Rightarrow> effect E ev w)
      in (r, \<lparr>files = fs', log = log w @ [(ev, r, fs')]\<rparr>))"

definition do_pw :: "env \<Rightarrow> api \<Rightarrow> pw_call \<Rightarrow> world \<Rightarrow> exn option \<times> world" where
  "do_pw E a c w =
     (let r = pw_raises E a c w; fs' = pw_effect E a c w
      in (r, \<lparr>files = fs', log = log w @ [(EvPw c, r, fs')]\<rparr>))"

text \<open>Statements in sequence: the first exception ends the sequence.\<close>

fun run_steps :: "(world \<Rightarrow> exn option \<times> world) list \<Rightarrow> world \<Rightarrow> exn option \<times> world" where
  "run_steps [] w = (None, w)"
| "run_steps (s # ss) w =
     (case s w of
        (None, w') \<Rightarrow> run_steps ss w'
      | (Some e, w') \<Rightarrow> (Some e, w'))"

text \<open>\<^verbatim>\<open>try: ... except Exception: (log and go on)\<close>\<close>

definition ignoring_errors :: "(world \<Rightarrow> exn option \<times> world) \<Rightarrow> world \<Rightarrow> exn option \<times> world" where
  "ignoring_errors s w = (None, snd (s w))"

definition path_exists :: "world \<Rightarrow> path \<Rightarrow> bool" where
  "path_exists w p \<longleftrightarrow> p \<in> dom (files w)"

definition events :: "world \<Rightarrow> event list" where
  "events w = map fst (log w)"

section \<open>The command-line tool (app.py)\<close>

fun win_path :: "string list \<Rightarrow> path" where
  "win_path [] = []"
| "win_path [x] = x"
| "win_path (x # y # ys) = x @ [CHR 0x5C] @ win_path (y # ys)"

definition browser_paths :: "(string \<times> path list) list" where
  "browser_paths =
     [(''chrome'',
        [win_path [''C:'', ''Program Files'', ''Google'', ''Chrome'', ''Application'', ''chrome.exe''],
         win_path [''C:'', ''Program Files (x86)'', ''Google'', ''Chrome'', ''Application'', ''chrome.exe'']]),
      (''edge'',
        [win_path [''C:'', ''Program Files (x86)'', ''Microsoft'', ''Edge'', ''Application'', ''msedge.exe''],
         win_path [''C:'', ''Program Files'', ''Microsoft'', ''Edge'', ''Application'', ''msedge.exe'']]),
      (''firefox'',
        [win_path [''C:'', ''Program Files'', ''Mozilla Firefox'', ''firefox.exe''],
         win_path [''C:'', ''Program Files (x86)'', ''Mozilla Firefox'', ''firefox.exe'']])]"

text \<open>The two nested loops of \<^verbatim>\<open>find_browser_path\<close>: the first path that exists wins.\<close>

fun first_existing :: "world \<Rightarrow> string \<Rightarrow> path list \<Rightarrow> (string \<times> path) option" where
  "first_existing w browser [] = None"
| "first_existing w browser (p # ps) =
     (if path_exists w p then Some (browser, p) else first_existing w browser ps)"

fun find_in :: "world \<Rightarrow> (string \<times> path list) list \<Rightarrow> (string \<times> path) option" where
  "find_in w [] = None"
| "find_in w ((browser, paths) # rest) =
     (case first_existing w browser paths of
        Some r \<Rightarrow> Some r
      | None \<Rightarrow> find_in w rest)"

definition find_browser_path :: "world \<Rightarrow> (string \<times> path) option" where
  "find_browser_path w = find_in w browser_paths"

definition file_url :: "env \<Rightarrow> path \<Rightarrow> string" where
  "file_url E html_file_path = ''file://'' @ abspath E html_file_path"

definition html_to_png_with_playwright :: "env \<Rightarrow> path \<Rightarrow> path \<Rightarrow> world \<Rightarrow> bool \<times> world" where
  "html_to_png_with_playwright E html_file_path png_file_path w =
     (if \<not> find_spec E ''playwright'' then (False, w)
      else case import_raises E ''playwright.sync_api'' of
        Some e \<Rightarrow> (False, w)
      | None \<Rightarrow>
         (case run_steps
                 [do_pw E SyncApi (Launch []),
                  do_pw E SyncApi (NewPage None),
                  do_pw E SyncApi (Goto (file_url E html_file_path) None None),
                  do_pw E SyncApi (WaitForLoadState ''networkidle'' None),
                  do_pw E SyncApi (Screenshot png_file_path True None),
                  do_pw E SyncApi Close] w of
            (Some e, w') \<Rightarrow> (False, w')
          | (None, w') \<Rightarrow> (path_exists w' png_file_path, w')))"

text \<open>
  How a \<^verbatim>\<open>try\<close> block around a command ends: with \<^verbatim>\<open>return True\<close>, by running to its
  end without a file, in its handler for \<^verbatim>\<open>(subprocess.SubprocessError, FileNotFoundError)\<close>,
  or with an exception the handler does not catch.
\<close>

datatype flow = Returned bool | Completed | Handled | Uncaught exn

text \<open>
  \<^verbatim>\<open>subprocess.run(cmd, check=True, ...)\<close> followed by \<^verbatim>\<open>if os.path.exists(png): return True\<close>.
  A non-zero exit status raises \<^verbatim>\<open>CalledProcessError\<close>, a \<^verbatim>\<open>SubprocessError\<close>.
\<close>

definition try_run :: "env \<Rightarrow> string list \<Rightarrow> path \<Rightarrow> world \<Rightarrow> flow \<times> world" where
  "try_run E cmd png_file_path w =
     (case do_event E (EvRun cmd) w of
        (None, w') \<Rightarrow>
          (if path_exists w' png_file_path then (Returned True, w') else (Completed, w'))
      | (Some e, w') \<Rightarrow>
          (if e = SubprocessError \<or> e = FileNotFoundError then (Handled, w')
           else (Uncaught e, w')))"

definition wkhtmltoimage_cmd :: "path \<Rightarrow> path \<Rightarrow> string list" where
  "wkhtmltoimage_cmd html_file_path png_file_path =
     [''wkhtmltoimage'', ''--quality'', ''100'', html_file_path, png_file_path]"

text \<open>The screenshot flag as one token, \<^verbatim>\<open>--screenshot=<path>\<close>.\<close>

definition headless_cmd_eq :: "env \<Rightarrow> string \<Rightarrow> path \<Rightarrow> path \<Rightarrow> string list" where
  "headless_cmd_eq E browser html_file_path png_file_path =
     [browser, ''--headless'', ''--disable-gpu'', ''--screenshot='' @ png_file_path,
      file_url E html_file_path]"

text \<open>The screenshot flag as two tokens, \<^verbatim>\<open>--screenshot <path>\<close>.\<close>

definition headless_cmd_two :: "env \<Rightarrow> string \<Rightarrow> path \<Rightarrow> path \<Rightarrow> string list" where
  "headless_cmd_two E browser html_file_path png_file_path =
     [browser, ''--headless'', ''--disable-gpu'', ''--screenshot'', png_file_path,
      file_url E html_file_path]"

text \<open>The branch on the browser found at a well-known path.\<close>

definition found_browser_block ::
  "env \<Rightarrow> (string \<times> path) option \<Rightarrow> path \<Rightarrow> path \<Rightarrow> world \<Rightarrow> flow \<times> world" where
  "found_browser_block E found html_file_path png_file_path w =
     (case found of
        None \<Rightarrow> (Completed, w)
      | Some (browser_name, browser_path) \<Rightarrow>
          if browser_name = ''chrome'' \<and> browser_path \<noteq> [] then
            try_run E (headless_cmd_eq E browser_path html_file_path png_file_path) png_file_path w
          else if browser_name = ''edge'' \<and> browser_path \<noteq> [] then
            (case try_run E (headless_cmd_two E browser_path html_file_path png_file_path)
                    png_file_path w of
               (Completed, w') \<Rightarrow>
                 try_run E (headless_cmd_eq E browser_path html_file_path png_file_path)
                   png_file_path w'
             | r \<Rightarrow> r)
          else (Completed, w))"

text \<open>The browsers by command name: \<^verbatim>\<open>msedge\<close> is tried inside the handler of \<^verbatim>\<open>chrome\<close>.\<close>

definition path_browser_block :: "env \<Rightarrow> path \<Rightarrow> path \<Rightarrow> world \<Rightarrow> flow \<times> world" where
  "path_browser_block E html_file_path png_file_path w =
     (case try_run E (headless_cmd_eq E ''chrome'' html_file_path png_file_path) png_file_path w of
        (Handled, w') \<Rightarrow>
          try_run E (headless_cmd_eq E ''msedge'' html_file_path png_file_path) png_file_path w'
      | r \<Rightarrow> r)"

text \<open>
  \<^verbatim>\<open>webbrowser.open(file_url)\<close> inside its own \<^verbatim>\<open>try\<close>: both the block and its handler
  return \<open>False\<close>.
\<close>

definition manual_fallback :: "env \<Rightarrow> path \<Rightarrow> world \<Rightarrow> bool \<times> world" where
  "manual_fallback E html_file_path w =
     (False, snd (do_event E (EvWebOpen (file_url E html_file_path)) w))"

definition convert_html_to_png :: "env \<Rightarrow> path \<Rightarrow> path \<Rightarrow> world \<Rightarrow> bool \<times> world" where
  "convert_html_to_png E html_file_path png_file_path w =
     (case html_to_png_with_playwright E html_file_path png_file_path w of
        (True, w1) \<Rightarrow> (True, w1)
      | (False, w1) \<Rightarrow>
         (let found = find_browser_path w1 in
          case try_run E (wkhtmltoimage_cmd html_file_path png_file_path) png_file_path w1 of
            (Returned b, w2) \<Rightarrow> (b, w2)
          | (Uncaught e, w2) \<Rightarrow> (False, w2)
          | (_, w2) \<Rightarrow>
             (case found_browser_block E found html_file_path png_file_path w2 of
                (Returned b, w3) \<Rightarrow> (b, w3)
              | (Uncaught e, w3) \<Rightarrow> (False, w3)
              | (_, w3) \<Rightarrow>
                 (case path_browser_block E html_file_path png_file_path w3 of
                    (Returned b, w4) \<Rightarrow> (b, w4)
                  | (Uncaught e, w4) \<Rightarrow> (False, w4)
                  | (_, w4) \<Rightarrow> manual_fallback E html_file_path w4))))"

text \<open>
  \<^verbatim>\<open>html_to_png\<close>: an exception that leaves the function is the left summand of the result.
\<close>

definition temp_file_path :: "env \<Rightarrow> path" where
  "temp_file_path E = join E ''output'' (''temp_'' @ now E @ ''.html'')"

definition write_temp_file :: "env \<Rightarrow> string \<Rightarrow> world \<Rightarrow> exn option \<times> world" where
  "write_temp_file E html_content w =
     run_steps
       [\<lambda>w. if \<not> path_exists w ''output'' then do_event E (EvMakeDirs ''output'') w else (None, w),
        do_event E (EvWrite (temp_file_path E) html_content)] w"

definition remove_best_effort :: "env \<Rightarrow> path \<Rightarrow> world \<Rightarrow> world" where
  "remove_best_effort E p w = (if path_exists w p then snd (do_event E (EvRemove p) w) else w)"

text \<open>
  The common tail of \<^verbatim>\<open>html_to_png\<close>, from the choice of the PNG path on; \<open>temp_file\<close> is
  the temporary file when one was created.
\<close>

definition render_and_clean ::
  "env \<Rightarrow> path option \<Rightarrow> path \<Rightarrow> path option \<Rightarrow> world \<Rightarrow> (exn + bool \<times> path) \<times> world" where
  "render_and_clean E temp_file html_file_path png_file_path w =
     (let png_path = (case png_file_path of
                        Some p \<Rightarrow> p
                      | None \<Rightarrow> splitext_root E html_file_path @ ''.png'');
          (success, w2) = convert_html_to_png E html_file_path png_path w;
          w3 = (case temp_file of
                  Some t \<Rightarrow> if success then remove_best_effort E t w2 else w2
                | None \<Rightarrow> w2)
      in (Inr (success, png_path), w3))"

definition html_to_png ::
  "env \<Rightarrow> string option \<Rightarrow> path option \<Rightarrow> path option \<Rightarrow> world \<Rightarrow> (exn + bool \<times> path) \<times> world" where
  "html_to_png E html_content html_file_path png_file_path w =
     (case html_content of
        None \<Rightarrow>
          (case html_file_path of
             None \<Rightarrow> (Inl ValueError, w)
           | Some h \<Rightarrow> render_and_clean E None h png_file_path w)
      | Some c \<Rightarrow>
          (case write_temp_file E c w of
             (Some e, w1) \<Rightarrow> (Inl e, w1)
           | (None, w1) \<Rightarrow>
               render_and_clean E (Some (temp_file_path E)) (temp_file_path E) png_file_path w1))"

subsection \<open>Reading the log of a conversion\<close>

text \<open>The entries a run from world \<open>w\<close> to world \<open>w'\<close> has added to the log.\<close>

definition new_log :: "world \<Rightarrow> world \<Rightarrow> (event \<times> exn option \<times> fs) list" where
  "new_log w w' = drop (length (log w)) (log w')"

text \<open>
  An attempt has produced the image: a command that exited with status zero, or the
  Playwright session that ran to its last call, with the destination file present
  afterwards.
\<close>

fun attempt_ok :: "path \<Rightarrow> event \<times> exn option \<times> fs \<Rightarrow> bool" where
  "attempt_ok png (EvRun c, r, f) = (r = None \<and> png \<in> dom f)"
| "attempt_ok png (EvPw c, r, f) = (c = Close \<and> r = None \<and> png \<in> dom f)"
| "attempt_ok png (ev, r, f) = False"

text \<open>
  A failure that a handler inside \<^verbatim>\<open>convert_html_to_png\<close> catches: a command that raised
  \<^verbatim>\<open>SubprocessError\<close> (a non-zero exit) or \<^verbatim>\<open>FileNotFoundError\<close>, or a Playwright call that
  raised anything.
\<close>

fun handled_failure :: "event \<times> exn option \<times> fs \<Rightarrow> bool" where
  "handled_failure (EvRun c, r, f) = (r = Some SubprocessError \<or> r = Some FileNotFoundError)"
| "handled_failure (EvPw c, r, f) = (r \<noteq> None)"
| "handled_failure (ev, r, f) = False"

text \<open>A command that raised any other exception: only the outermost handler catches it.\<close>

fun uncaught_failure :: "event \<times> exn option \<times> fs \<Rightarrow> bool" where
  "uncaught_failure (EvRun c, r, f) =
     (r \<noteq> None \<and> r \<noteq> Some SubprocessError \<and> r \<noteq> Some FileNotFoundError)"
| "uncaught_failure (ev, r, f) = False"

definition playwright_plan :: "env \<Rightarrow> path \<Rightarrow> path \<Rightarrow> event list" where
  "playwright_plan E html_file_path png_file_path =
     map EvPw
       [Launch [], NewPage None, Goto (file_url E html_file_path) None None,
        WaitForLoadState ''networkidle'' None, Screenshot png_file_path True None, Close]"

definition found_browser_plan ::
  "env \<Rightarrow> (string \<times> path) option \<Rightarrow> path \<Rightarrow> path \<Rightarrow> event list" where
  "found_browser_plan E found html_file_path png_file_path =
     (case found of
        None \<Rightarrow> []
      | Some (browser_name, browser_path) \<Rightarrow>
          if browser_name = ''chrome'' \<and> browser_path \<noteq> [] then
            [EvRun (headless_cmd_eq E browser_path html_file_path png_file_path)]
          else if browser_name = ''edge'' \<and> browser_path \<noteq> [] then
            [EvRun (headless_cmd_two E browser_path html_file_path png_file_path),
             EvRun (headless_cmd_eq E browser_path html_file_path png_file_path)]
          else [])"

text \<open>
  Every external action \<^verbatim>\<open>convert_html_to_png\<close> can perform, in the order of the source:
  the Playwright session, \<^verbatim>\<open>wkhtmltoimage\<close>, the browser found at a well-known path
  (Chrome with the one-token flag; Edge with the two-token flag, then with the one-token
  flag), \<^verbatim>\<open>chrome\<close> and \<^verbatim>\<open>msedge\<close> by command name with the one-token flag, the default
  browser.
\<close>

definition backend_plan ::
  "env \<Rightarrow> (string \<times> path) option \<Rightarrow> path \<Rightarrow> path \<Rightarrow> event list" where
  "backend_plan E found html_file_path png_file_path =
     playwright_plan E html_file_path png_file_path @
     [EvRun (wkhtmltoimage_cmd html_file_path png_file_path)] @
     found_browser_plan E found html_file_path png_file_path @
     [EvRun (headless_cmd_eq E ''chrome'' html_file_path png_file_path),
      EvRun (headless_cmd_eq E ''msedge'' html_file_path png_file_path)] @
     [EvWebOpen (file_url E html_file_path)]"

text \<open>
  The actions that have all been performed, in this order, once the default browser is
  opened: the retry of Edge, \<^verbatim>\<open>msedge\<close> by name and the calls of a Playwright that is not
  installed may be missing.
\<close>

definition required_plan ::
  "env \<Rightarrow> (string \<times> path) option \<Rightarrow> path \<Rightarrow> path \<Rightarrow> event list" where
  "required_plan E found html_file_path png_file_path =
     [EvRun (wkhtmltoimage_cmd html_file_path png_file_path)] @
     take 1 (found_browser_plan E found html_file_path png_file_path) @
     [EvRun (headless_cmd_eq E ''chrome'' html_file_path png_file_path)] @
     [EvWebOpen (file_url E html_file_path)]"

text \<open>
  What a part of the sequence of attempts guarantees about the entries \<open>seg\<close> it logs and
  the way \<open>f\<close> it ends: the actions are taken from \<open>plan\<close> in order, only the last entry can
  be a success or an uncaught failure, the part returns exactly after a success, and a
  part that hands over to the next has performed the actions \<open>req\<close>.
\<close>

definition block_ok ::
  "path \<Rightarrow> event list \<Rightarrow> event list \<Rightarrow> flow \<Rightarrow> (event \<times> exn option \<times> fs) list \<Rightarrow> bool" where
  "block_ok png req plan f seg \<longleftrightarrow>
     subseq (map fst seg) plan \<and>
     (\<forall>x\<in>set (butlast seg). \<not> attempt_ok png x \<and> \<not> uncaught_failure x) \<and>
     (case f of
        Returned b \<Rightarrow> b \<and> seg \<noteq> [] \<and> attempt_ok png (last seg)
      | Uncaught e \<Rightarrow> seg \<noteq> [] \<and> uncaught_failure (last seg)
      | _ \<Rightarrow> (\<forall>x\<in>set seg. \<not> attempt_ok png x \<and> \<not> uncaught_failure x) \<and>
             subseq req (map fst seg))"

definition block_run ::
  "path \<Rightarrow> event list \<Rightarrow> event list \<Rightarrow> world \<Rightarrow> flow \<Rightarrow> world \<Rightarrow> bool" where
  "block_run png req plan w f w' \<longleftrightarrow>
     log w' = log w @ new_log w w' \<and>
     block_ok png req plan f (new_log w w') \<and>
     (f = Returned True \<longrightarrow> path_exists w' png)"

fun continues :: "flow \<Rightarrow> bool" where
  "continues Completed = True"
| "continues Handled = True"
| "continues f = False"

subsection \<open>Machines\<close>

text \<open>
  Concrete environments on which the model is run. Relative paths are resolved in
  \<^verbatim>\<open>/work\<close>.
\<close>

definition strip_ext :: "path \<Rightarrow> path" where
  "strip_ext p = (if CHR ''.'' \<in> set p then rev (tl (dropWhile (\<lambda>c. c \<noteq> CHR ''.'') (rev p))) else p)"

text \<open>Nothing is installed: no Playwright, and every command is missing.\<close>

definition env_bare :: env where
  "env_bare =
     \<lparr>abspath = (\<lambda>p. ''/work/'' @ p),
      isabs = (\<lambda>p. take 1 p = ''/''),
      join = (\<lambda>d n. d @ ''/'' @ n),
      splitext_root = strip_ext,
      now = ''20250101_120000'',
      service_url = ''http://localhost:8001'',
      find_spec = (\<lambda>m. False),
      import_raises = (\<lambda>m. Some ImportError),
      pw_raises = (\<lambda>a c w. Some OtherError),
      pw_effect = (\<lambda>a c w. files w),
      raises = (\<lambda>ev w. case ev of EvRun cmd \<Rightarrow> Some FileNotFoundError | _ \<Rightarrow> None),
      effect = (\<lambda>ev w. files w),
      utf8_decodable = (\<lambda>c. True),
      post_reply = (\<lambda>ev w. \<lparr>status_code = 500, json_success = None, json_image_path = None\<rparr>)\<rparr>"

text \<open>
  As before, but \<^verbatim>\<open>wkhtmltoimage\<close> is on the search path without the permission to execute
  it: starting it raises \<^verbatim>\<open>PermissionError\<close>, which is neither a \<^verbatim>\<open>SubprocessError\<close> nor a
  \<^verbatim>\<open>FileNotFoundError\<close>.
\<close>

definition env_denied :: env where
  "env_denied =
     env_bare\<lparr>raises :=
       (\<lambda>ev w. case ev of
                  EvRun cmd \<Rightarrow> if take 1 cmd = [''wkhtmltoimage''] then Some OtherError
                               else Some FileNotFoundError
                | _ \<Rightarrow> None)\<rparr>"

definition chrome_exe :: path where
  "chrome_exe =
     win_path [''C:'', ''Program Files'', ''Google'', ''Chrome'', ''Application'', ''chrome.exe'']"

text \<open>
  Chrome is installed at its usual place and writes the screenshot named by a
  \<^verbatim>\<open>--screenshot=\<close> argument; nothing else is installed.
\<close>

definition env_chrome :: env where
  "env_chrome =
     env_bare\<lparr>
       raises := (\<lambda>ev w. case ev of
                    EvRun cmd \<Rightarrow> if take 1 cmd = [chrome_exe] then None else Some FileNotFoundError
                  | _ \<Rightarrow> None),
       effect := (\<lambda>ev w. case ev of
                    EvRun cmd \<Rightarrow>
                      if take 1 cmd = [chrome_exe] \<and> take 13 (cmd ! 3) = ''--screenshot=''
                      then (files w)(drop 13 (cmd ! 3) \<mapsto> ''PNG'') else files w
                  | _ \<Rightarrow> files w)\<rparr>"




definition world_empty :: world where
  "world_empty = \<lparr>files = Map.empty, log = []\<rparr>"

definition world_chrome :: world where
  "world_chrome = \<lparr>files = [chrome_exe \<mapsto> ''MZ'', ''report.html'' \<mapsto> ''<html></html>''], log = []\<rparr>"

section \<open>The converter (html_to_image.py)\<close>

record options =
  viewport_width :: int
  viewport_height :: int
  scale_factor :: real
  timeout :: int
  wait_time :: int
  full_page :: bool

text \<open>The default values of the keyword arguments.\<close>

definition default_options :: options where
  "default_options =
     \<lparr>viewport_width = 1200, viewport_height = 800, scale_factor = 3 / 2,
      timeout = 60000, wait_time = 5000, full_page = True\<rparr>"

text \<open>
  The keyword arguments of a call (\<^verbatim>\<open>**kwargs\<close>): a dictionary, so every name occurs at most
  once; \<open>kw_others\<close> holds the names that are none of the six options.
\<close>

record kwargs =
  kw_viewport_width :: "int option"
  kw_viewport_height :: "int option"
  kw_scale_factor :: "real option"
  kw_timeout :: "int option"
  kw_wait_time :: "int option"
  kw_full_page :: "bool option"
  kw_others :: "string list"

definition no_kwargs :: kwargs where
  "no_kwargs =
     \<lparr>kw_viewport_width = None, kw_viewport_height = None, kw_scale_factor = None,
      kw_timeout = None, kw_wait_time = None, kw_full_page = None, kw_others = []\<rparr>"

text \<open>
  The call \<^verbatim>\<open>self._convert_html_to_image(temp_html_path, img_path, **kwargs)\<close> binds the
  keyword arguments to the parameters of the renderer: a name that is none of the six
  options raises \<^verbatim>\<open>TypeError\<close> before the body of the renderer runs, an option that is not
  given has its default value.
\<close>

definition bind_kwargs :: "kwargs \<Rightarrow> exn + options" where
  "bind_kwargs kw =
     (if kw_others kw \<noteq> [] then Inl TypeError
      else Inr
        \<lparr>viewport_width = (case kw_viewport_width kw of Some v \<Rightarrow> v | None \<Rightarrow> viewport_width default_options),
         viewport_height = (case kw_viewport_height kw of Some v \<Rightarrow> v | None \<Rightarrow> viewport_height default_options),
         scale_factor = (case kw_scale_factor kw of Some v \<Rightarrow> v | None \<Rightarrow> scale_factor default_options),
         timeout = (case kw_timeout kw of Some v \<Rightarrow> v | None \<Rightarrow> timeout default_options),
         wait_time = (case kw_wait_time kw of Some v \<Rightarrow> v | None \<Rightarrow> wait_time default_options),
         full_page = (case kw_full_page kw of Some v \<Rightarrow> v | None \<Rightarrow> full_page default_options)\<rparr>)"

record converter =
  output_dir :: path
  image_dir :: path
  html_dir :: path

text \<open>
  The script passed to \<^verbatim>\<open>page.evaluate\<close>, which resolves once every image of the document is
  loaded: the text of the blocking variant and the text of the non-blocking variant, each
  as it stands in its function (UTF-8).
\<close>

definition images_loaded_script_sync :: string where
  "images_loaded_script_sync =
     [CHR 0x0A] @ ''                () => {'' @ [CHR 0x0A] @
     ''                    return new Promise((resolve) => {'' @ [CHR 0x0A] @
     ''                        // '' @
     [CHR 0xE6, CHR 0xA3, CHR 0x80, CHR 0xE6, CHR 0x9F, CHR 0xA5, CHR 0xE6, CHR 0x89, CHR 0x80, CHR 0xE6, CHR 0x9C, CHR 0x89, CHR 0xE5, CHR 0x9B, CHR 0xBE, CHR 0xE7, CHR 0x89, CHR 0x87, CHR 0xE6, CHR 0x98, CHR 0xAF, CHR 0xE5, CHR 0x90, CHR 0xA6, CHR 0xE5, CHR 0x8A, CHR 0xA0, CHR 0xE8, CHR 0xBD, CHR 0xBD, CHR 0xE5, CHR 0xAE, CHR 0x8C, CHR 0xE6, CHR 0x88, CHR 0x90, CHR 0x0A] @
     ''                        const allImagesLoaded = Array.from(document.images).every(img => img.complete);'' @
     [CHR 0x0A] @ ''                        if (allImagesLoaded) {'' @ [CHR 0x0A] @
     ''                            resolve();'' @ [CHR 0x0A] @
     ''                        } else {'' @ [CHR 0x0A] @ ''                            // '' @
     [CHR 0xE5, CHR 0xA6, CHR 0x82, CHR 0xE6, CHR 0x9E, CHR 0x9C, CHR 0xE6, CHR 0x9C, CHR 0x89, CHR 0xE6, CHR 0x9C, CHR 0xAA, CHR 0xE5, CHR 0x8A, CHR 0xA0, CHR 0xE8, CHR 0xBD, CHR 0xBD, CHR 0xE5, CHR 0xAE, CHR 0x8C, CHR 0xE7, CHR 0x9A, CHR 0x84, CHR 0xE5, CHR 0x9B, CHR 0xBE, CHR 0xE7, CHR 0x89, CHR 0x87, CHR 0xEF, CHR 0xBC, CHR 0x8C, CHR 0xE7, CHR 0xAD, CHR 0x89, CHR 0xE5, CHR 0xBE, CHR 0x85] @
     '' '' @ [CHR 0x27] @ ''load'' @ [CHR 0x27] @ '' '' @
     [CHR 0xE4, CHR 0xBA, CHR 0x8B, CHR 0xE4, CHR 0xBB, CHR 0xB6, CHR 0x0A] @
     ''                            window.addEventListener('' @ [CHR 0x27] @ ''load'' @
     [CHR 0x27] @ '', resolve);'' @ [CHR 0x0A] @ ''                        }'' @ [CHR 0x0A] @
     ''                    });'' @ [CHR 0x0A] @ ''                }'' @ [CHR 0x0A] @
     ''                ''"

definition images_loaded_script_async :: string where
  "images_loaded_script_async =
     [CHR 0x0A] @ ''                () => {'' @ [CHR 0x0A] @
     ''                    return new Promise((resolve) => {'' @ [CHR 0x0A] @
     ''                        // '' @
     [CHR 0xE6, CHR 0xA3, CHR 0x80, CHR 0xE6, CHR 0x9F, CHR 0xA5, CHR 0xE6, CHR 0x89, CHR 0x80, CHR 0xE6, CHR 0x9C, CHR 0x89, CHR 0xE5, CHR 0x9B, CHR 0xBE, CHR 0xE7, CHR 0x89, CHR 0x87, CHR 0xE6, CHR 0x98, CHR 0xAF, CHR 0xE5, CHR 0x90, CHR 0xA6, CHR 0xE5, CHR 0x8A, CHR 0xA0, CHR 0xE8, CHR 0xBD, CHR 0xBD, CHR 0xE5, CHR 0xAE, CHR 0x8C, CHR 0xE6, CHR 0x88, CHR 0x90, CHR 0x0A] @
     ''                        const allImagesLoaded = Array.from(document.images).every(img => img.complete);'' @
     [CHR 0x0A] @ ''                        if (allImagesLoaded) {'' @ [CHR 0x0A] @
     ''                            resolve();'' @ [CHR 0x0A] @
     ''                        } else {'' @ [CHR 0x0A] @ ''                            // '' @
     [CHR 0xE5, CHR 0xA6, CHR 0x82, CHR 0xE6, CHR 0x9E, CHR 0x9C, CHR 0xE6, CHR 0x9C, CHR 0x89, CHR 0xE6, CHR 0x9C, CHR 0xAA, CHR 0xE5, CHR 0x8A, CHR 0xA0, CHR 0xE8, CHR 0xBD, CHR 0xBD, CHR 0xE5, CHR 0xAE, CHR 0x8C, CHR 0xE7, CHR 0x9A, CHR 0x84, CHR 0xE5, CHR 0x9B, CHR 0xBE, CHR 0xE7, CHR 0x89, CHR 0x87, CHR 0xEF, CHR 0xBC, CHR 0x8C, CHR 0xE7, CHR 0xAD, CHR 0x89, CHR 0xE5, CHR 0xBE, CHR 0x85] @
     '' '' @ [CHR 0x27] @ ''load'' @ [CHR 0x27] @ '' '' @
     [CHR 0xE4, CHR 0xBA, CHR 0x8B, CHR 0xE4, CHR 0xBB, CHR 0xB6, CHR 0x0A] @
     ''                            window.addEventListener('' @ [CHR 0x27] @ ''load'' @
     [CHR 0x27] @ '', resolve);'' @ [CHR 0x0A] @ ''                        }'' @ [CHR 0x0A] @
     ''                    });'' @ [CHR 0x0A] @ ''                }'' @ [CHR 0x0A] @
     ''                ''"

text \<open>\<^verbatim>\<open>needle in text\<close> on strings.\<close>

fun contains :: "string \<Rightarrow> string \<Rightarrow> bool" where
  "contains needle [] = (needle = [])"
| "contains needle (c # cs) = (prefix needle (c # cs) \<or> contains needle cs)"

text \<open>
  \<^verbatim>\<open>open(path, 'r', encoding='utf-8').read()\<close>: a missing file raises
  \<^verbatim>\<open>FileNotFoundError\<close>, bytes that are not UTF-8 raise \<^verbatim>\<open>UnicodeDecodeError\<close>.
\<close>

definition read_text :: "env \<Rightarrow> world \<Rightarrow> path \<Rightarrow> exn + string" where
  "read_text E w p =
     (case files w p of
        None \<Rightarrow> Inl FileNotFoundError
      | Some c \<Rightarrow> if utf8_decodable E c then Inr c else Inl OtherError)"

text \<open>
  Reading the HTML file and, if it mentions a canvas, waiting for one to appear; a wait
  that fails is only logged.
\<close>

definition wait_for_canvas :: "env \<Rightarrow> api \<Rightarrow> path \<Rightarrow> world \<Rightarrow> exn option \<times> world" where
  "wait_for_canvas E a abs_html_path w =
     (case read_text E w abs_html_path of
        Inl e \<Rightarrow> (Some e, w)
      | Inr html_content \<Rightarrow>
          if contains ''<canvas'' html_content
          then ignoring_errors (do_pw E a (WaitForSelector ''canvas'' 5000)) w
          else (None, w))"

text \<open>
  \<^verbatim>\<open>HtmlToImageConverter._convert_html_to_image\<close>, the blocking variant. Every exception is
  caught: by the handler of the import, or by the outermost handler.
\<close>

definition converter_convert_html_to_image ::
  "env \<Rightarrow> path \<Rightarrow> path \<Rightarrow> options \<Rightarrow> world \<Rightarrow> (bool \<times> path option) \<times> world" where
  "converter_convert_html_to_image E html_file_path img_path opts w =
     (case import_raises E ''playwright.sync_api'' of
        Some e \<Rightarrow> ((False, None), w)
      | None \<Rightarrow>
         (let abs_html_path = abspath E html_file_path;
              abs_img_path = abspath E img_path
          in case run_steps
                 [do_pw E SyncApi
                    (Launch [''--disable-web-security'', ''--allow-file-access-from-files'']),
                  do_pw E SyncApi
                    (NewPage (Some (viewport_width opts, viewport_height opts, scale_factor opts))),
                  ignoring_errors
                    (run_steps
                       [do_pw E SyncApi
                          (Goto (''file://'' @ abs_html_path) (Some (timeout opts))
                             (Some ''domcontentloaded'')),
                        do_pw E SyncApi (WaitForLoadState ''networkidle'' (Some (timeout opts)))]),
                  do_pw E SyncApi (WaitForTimeout (wait_time opts)),
                  wait_for_canvas E SyncApi abs_html_path,
                  do_pw E SyncApi (Evaluate images_loaded_script_sync),
                  do_pw E SyncApi (Screenshot abs_img_path (full_page opts) (Some False)),
                  do_pw E SyncApi Close] w of
               (Some e, w') \<Rightarrow> ((False, None), w')
             | (None, w') \<Rightarrow>
                 if path_exists w' abs_img_path then ((True, Some abs_img_path), w')
                 else ((False, None), w')))"

text \<open>
  \<^verbatim>\<open>HtmlToImageConverter._convert_html_to_image_async\<close>, the non-blocking variant: the same
  calls through the asynchronous interface, each of them awaited.
\<close>

definition converter_convert_html_to_image_async ::
  "env \<Rightarrow> path \<Rightarrow> path \<Rightarrow> options \<Rightarrow> world \<Rightarrow> (bool \<times> path option) \<times> world" where
  "converter_convert_html_to_image_async E html_file_path img_path opts w =
     (case import_raises E ''playwright.async_api'' of
        Some e \<Rightarrow> ((False, None), w)
      | None \<Rightarrow>
         (let abs_html_path = abspath E html_file_path;
              abs_img_path = abspath E img_path
          in case run_steps
                 [do_pw E AsyncApi
                    (Launch [''--disable-web-security'', ''--allow-file-access-from-files'']),
                  do_pw E AsyncApi
                    (NewPage (Some (viewport_width opts, viewport_height opts, scale_factor opts))),
                  ignoring_errors
                    (run_steps
                       [do_pw E AsyncApi
                          (Goto (''file://'' @ abs_html_path) (Some (timeout opts))
                             (Some ''domcontentloaded'')),
                        do_pw E AsyncApi (WaitForLoadState ''networkidle'' (Some (timeout opts)))]),
                  do_pw E AsyncApi (WaitForTimeout (wait_time opts)),
                  wait_for_canvas E AsyncApi abs_html_path,
                  do_pw E AsyncApi (Evaluate images_loaded_script_async),
                  do_pw E AsyncApi (Screenshot abs_img_path (full_page opts) (Some False)),
                  do_pw E AsyncApi Close] w of
               (Some e, w') \<Rightarrow> ((False, None), w')
             | (None, w') \<Rightarrow>
                 if path_exists w' abs_img_path then ((True, Some abs_img_path), w')
                 else ((False, None), w')))"

text \<open>\<^verbatim>\<open>image_name.lower().endswith('.png')\<close>\<close>

definition ends_with_png :: "string \<Rightarrow> bool" where
  "ends_with_png n \<longleftrightarrow> suffix ''.png'' (map ascii_lower n)"

definition temp_html_path :: "env \<Rightarrow> converter \<Rightarrow> path" where
  "temp_html_path E self = join E (html_dir self) (''temp_'' @ now E @ ''.html'')"

text \<open>
  \<^verbatim>\<open>HtmlToImageConverter.convert_html_string\<close>. The renderer resolves the path of the HTML
  file with \<^verbatim>\<open>os.path.abspath\<close> before it reads the file, and a relative and the resolved
  path name the same file; so the files of this function are kept under their resolved
  paths: the write, the test for existence and the removal of the temporary file act on
  \<open>abspath E temp_html_path\<close>, the name under which the renderer reads it. The renderer is
  called with the path as the source passes it. A write that raises returns
  \<open>(False, None)\<close> at once; the keyword arguments are bound after the write and before
  anything is rendered or removed, and a \<^verbatim>\<open>TypeError\<close> of the binding leaves the function.
\<close>

definition converter_convert_html_string ::
  "env \<Rightarrow> converter \<Rightarrow> string \<Rightarrow> string option \<Rightarrow> bool \<Rightarrow> kwargs \<Rightarrow> world
     \<Rightarrow> (exn + bool \<times> path option) \<times> world" where
  "converter_convert_html_string E self html_content image_name delete_html kw w =
     (let name = (case image_name of
                    None \<Rightarrow> ''image_'' @ now E @ ''.png''
                  | Some n \<Rightarrow> if ends_with_png n then n else n @ ''.png'');
          img_path = join E (image_dir self) name
      in case do_event E (EvWrite (abspath E (temp_html_path E self)) html_content) w of
           (Some e, w1) \<Rightarrow> (Inr (False, None), w1)
         | (None, w1) \<Rightarrow>
            (case bind_kwargs kw of
               Inl e \<Rightarrow> (Inl e, w1)
             | Inr opts \<Rightarrow>
                (let (result, w2) =
                       converter_convert_html_to_image E (temp_html_path E self) img_path opts w1;
                     w3 = (if delete_html
                           then remove_best_effort E (abspath E (temp_html_path E self)) w2
                           else w2)
                 in (Inr result, w3))))"

section \<open>The client of the conversion service (app/utils/helpers.py)\<close>

definition convert_html_to_image ::
  "env \<Rightarrow> string option \<Rightarrow> path option \<Rightarrow> path option \<Rightarrow> world \<Rightarrow> (bool \<times> path option) \<times> world" where
  "convert_html_to_image E html_content html_file_path png_file_path w =
     (if html_content = None \<and> html_file_path = None then ((False, None), w)
      else
        let request =
              EvPost (service_url E @ (if html_file_path \<noteq> None then ''/convert/path''
                                       else ''/convert''))
                html_content (map_option (abspath E) html_file_path)
                (map_option (abspath E) png_file_path);
            rep = post_reply E request w
        in case do_event E request w of
             (Some e, w') \<Rightarrow> ((False, None), w')
           | (None, w') \<Rightarrow>
               if status_code rep = 200 then
                 (case json_success rep of
                    None \<Rightarrow> ((False, None), w')
                  | Some False \<Rightarrow> ((False, None), w')
                  | Some True \<Rightarrow>
                      (case json_image_path rep of
                         None \<Rightarrow> ((True, None), w')
                       | Some png_path \<Rightarrow>
                           if png_path \<noteq> [] \<and> \<not> isabs E png_path
                           then ((True, Some (abspath E png_path)), w')
                           else ((True, Some png_path), w')))
               else ((False, None), w'))"

section \<open>Further machines and objects for the runs\<close>

text \<open>
  Playwright is installed and works: no call raises, and a screenshot creates its file.
  The answers do not depend on the interface, blocking or not, through which a call comes.
\<close>

definition env_playwright :: env where
  "env_playwright =
     env_bare\<lparr>
       find_spec := (\<lambda>m. True),
       import_raises := (\<lambda>m. None),
       pw_raises := (\<lambda>a c w. None),
       pw_effect := (\<lambda>a c w. case c of
                       Screenshot p full omit \<Rightarrow> (files w)(p \<mapsto> ''PNG'')
                     | _ \<Rightarrow> files w)\<rparr>"

text \<open>
  As before, but no file can be written in full: \<^verbatim>\<open>open\<close> creates the file and the write
  raises (\<^verbatim>\<open>OSError\<close> on a full disk, \<^verbatim>\<open>UnicodeEncodeError\<close> on a text that cannot be
  encoded), which leaves the file empty.
\<close>

definition env_disk_full :: env where
  "env_disk_full =
     env_playwright\<lparr>
       raises := (\<lambda>ev w. case ev of EvWrite p c \<Rightarrow> Some OtherError | _ \<Rightarrow> None),
       effect := (\<lambda>ev w. case ev of EvWrite p c \<Rightarrow> (files w)(p \<mapsto> []) | _ \<Rightarrow> files w)\<rparr>"

definition world_report :: world where
  "world_report = \<lparr>files = [''/work/report.html'' \<mapsto> ''<html><canvas></canvas></html>''], log = []\<rparr>"

text \<open>A converter with the default directories below \<^verbatim>\<open>output\<close>.\<close>

definition converter_default :: converter where
  "converter_default =
     \<lparr>output_dir = ''output'', image_dir = ''output/images'', html_dir = ''output/html_files''\<rparr>"

section \<open>Steps and the log\<close>

text \<open>Every step only appends to the log.\<close>

definition appends :: "(world \<Rightarrow> exn option \<times> world) \<Rightarrow> bool" where
  "appends s \<longleftrightarrow> (\<forall>w. prefix (log w) (log (snd (s w))))"

section \<open>The order of the attempts in the log\<close>



section \<open>Properties of the extractor\<close>


lemma ci_prefix_append: "ci_prefix p d \<Longrightarrow> ci_prefix p (d @ r)"
  by (induction p d rule: ci_prefix.induct) auto

lemma ci_prefix_length: "ci_prefix p s \<Longrightarrow> length p \<le> length s"
  by (induction p s rule: ci_prefix.induct) auto

lemma lazy_until_first:
  "\<forall>k<length mid. \<not> ci_prefix cl (drop k (mid @ rest)) \<Longrightarrow> ci_prefix cl rest \<Longrightarrow>
   lazy_until cl (mid @ rest) = Some (mid @ take (length cl) rest)"
proof (induction mid)
  case Nil
  then show ?case by (cases rest) (auto dest: ci_prefix_length)
next
  case (Cons c m)
  from Cons.prems(1) have "\<not> ci_prefix cl (drop 0 ((c # m) @ rest))" by blast
  then have no0: "\<not> ci_prefix cl (c # m @ rest)" by simp
  have "\<forall>k<length m. \<not> ci_prefix cl (drop k (m @ rest))"
  proof (intro allI impI)
    fix k assume "k < length m"
    then have "Suc k < length (c # m)" by simp
    with Cons.prems(1) have "\<not> ci_prefix cl (drop (Suc k) ((c # m) @ rest))" by blast
    then show "\<not> ci_prefix cl (drop k (m @ rest))" by simp
  qed
  with Cons.IH Cons.prems(2) have "lazy_until cl (m @ rest) = Some (m @ take (length cl) rest)" by blast
  with no0 show ?case by simp
qed

lemma lazy_until_None_iff:
  "lazy_until cl s = None \<longleftrightarrow> (\<forall>k\<le>length s. \<not> ci_prefix cl (drop k s))"
proof (induction s)
  case Nil
  then show ?case by simp
next
  case (Cons c cs)
  have "(\<forall>k\<le>length (c # cs). \<not> ci_prefix cl (drop k (c # cs))) \<longleftrightarrow>
        (\<not> ci_prefix cl (c # cs) \<and> (\<forall>k\<le>length cs. \<not> ci_prefix cl (drop k cs)))"
    (is "?L \<longleftrightarrow> ?R")
  proof
    assume l: ?L
    then have "\<not> ci_prefix cl (drop 0 (c # cs))" by blast
    moreover have "\<forall>k\<le>length cs. \<not> ci_prefix cl (drop k cs)"
    proof (intro allI impI)
      fix k assume "k \<le> length cs"
      then have "Suc k \<le> length (c # cs)" by simp
      with l have "\<not> ci_prefix cl (drop (Suc k) (c # cs))" by blast
      then show "\<not> ci_prefix cl (drop k cs)" by simp
    qed
    ultimately show ?R by simp
  next
    assume r: ?R
    show ?L
    proof (intro allI impI)
      fix k assume "k \<le> length (c # cs)"
      then show "\<not> ci_prefix cl (drop k (c # cs))" using r by (cases k) auto
    qed
  qed
  with Cons.IH show ?case by simp
qed

lemma re_search_first:
  "\<forall>k<length pre. match_at opn cl (drop k (pre @ rest)) = None \<Longrightarrow>
   match_at opn cl rest = Some m \<Longrightarrow> re_search opn cl (pre @ rest) = Some m"
proof (induction pre)
  case Nil
  then show ?case by (cases rest) auto
next
  case (Cons c p)
  from Cons.prems(1) have "match_at opn cl (drop 0 ((c # p) @ rest)) = None" by blast
  then have no0: "match_at opn cl (c # p @ rest) = None" by simp
  have "\<forall>k<length p. match_at opn cl (drop k (p @ rest)) = None"
  proof (intro allI impI)
    fix k assume "k < length p"
    then have "Suc k < length (c # p)" by simp
    with Cons.prems(1) have "match_at opn cl (drop (Suc k) ((c # p) @ rest)) = None" by blast
    then show "match_at opn cl (drop k (p @ rest)) = None" by simp
  qed
  with Cons.IH Cons.prems(2) have "re_search opn cl (p @ rest) = Some m" by blast
  with no0 show ?case by simp
qed

lemma re_search_None_iff:
  "re_search opn cl s = None \<longleftrightarrow> (\<forall>k\<le>length s. match_at opn cl (drop k s) = None)"
proof (induction s)
  case Nil
  then show ?case by simp
next
  case (Cons c cs)
  have "(\<forall>k\<le>length (c # cs). match_at opn cl (drop k (c # cs)) = None) \<longleftrightarrow>
        (match_at opn cl (c # cs) = None \<and> (\<forall>k\<le>length cs. match_at opn cl (drop k cs) = None))"
    (is "?L \<longleftrightarrow> ?R")
  proof
    assume l: ?L
    then have "match_at opn cl (drop 0 (c # cs)) = None" by blast
    moreover have "\<forall>k\<le>length cs. match_at opn cl (drop k cs) = None"
    proof (intro allI impI)
      fix k assume "k \<le> length cs"
      then have "Suc k \<le> length (c # cs)" by simp
      with l have "match_at opn cl (drop (Suc k) (c # cs)) = None" by blast
      then show "match_at opn cl (drop k cs) = None" by simp
    qed
    ultimately show ?R by simp
  next
    assume r: ?R
    show ?L
    proof (intro allI impI)
      fix k assume "k \<le> length (c # cs)"
      then show "match_at opn cl (drop k (c # cs)) = None" using r by (cases k) auto
    qed
  qed
  with Cons.IH show ?case by (simp split: option.splits)
qed

lemma match_at_block:
  assumes "length d = length opn" "ci_prefix opn d" "ci_prefix cl c" "length c = length cl"
    and "\<forall>k<length mid. \<not> ci_prefix cl (drop k (mid @ c @ post))"
  shows "match_at opn cl (d @ mid @ c @ post) = Some (d @ mid @ c)"
proof -
  have "lazy_until cl (mid @ c @ post) = Some (mid @ take (length cl) (c @ post))"
    using assms(3,5) by (intro lazy_until_first) (auto intro: ci_prefix_append)
  then show ?thesis using assms(1,2,4) by (simp add: match_at_def ci_prefix_append)
qed

lemma search_block:
  assumes "length d = length opn" "ci_prefix opn d" "ci_prefix cl c" "length c = length cl"
    and "\<forall>k<length pre. \<not> ci_prefix opn (drop k (pre @ d @ mid @ c @ post))"
    and "\<forall>k<length mid. \<not> ci_prefix cl (drop k (mid @ c @ post))"
  shows "re_search opn cl (pre @ d @ mid @ c @ post) = Some (d @ mid @ c)"
proof (rule re_search_first)
  show "\<forall>k<length pre. match_at opn cl (drop k (pre @ d @ mid @ c @ post)) = None"
    using assms(5) by (simp add: match_at_def)
  show "match_at opn cl (d @ mid @ c @ post) = Some (d @ mid @ c)"
    using assms(1-4,6) by (rule match_at_block)
qed

lemma search_absent:
  assumes "\<forall>k\<le>length s. \<not> ci_prefix opn (drop k s)"
  shows "re_search opn cl s = None"
  using assms by (simp add: re_search_None_iff match_at_def)

lemma match_at_None_iff:
  "match_at opn cl s = None \<longleftrightarrow>
   (\<not> ci_prefix opn s \<or> (\<forall>k\<le>length s - length opn. \<not> ci_prefix cl (drop (length opn + k) s)))"
  by (simp add: match_at_def lazy_until_None_iff add.commute)

lemma re_search_None_iff_occurs: "re_search opn cl t = None \<longleftrightarrow> \<not> pattern_occurs opn cl t"
proof
  assume n: "re_search opn cl t = None"
  show "\<not> pattern_occurs opn cl t"
  proof
    assume "pattern_occurs opn cl t"
    then obtain i j where ij: "i + length opn \<le> j" "j \<le> length t"
      "ci_prefix opn (drop i t)" "ci_prefix cl (drop j t)"
      by (auto simp: pattern_occurs_def)
    from ij have "i \<le> length t" by simp
    with n have "match_at opn cl (drop i t) = None" by (simp add: re_search_None_iff)
    with ij(3) have "\<forall>k\<le>length (drop i t) - length opn. \<not> ci_prefix cl (drop (length opn + k) (drop i t))"
      by (simp add: match_at_None_iff)
    moreover have "j - i - length opn \<le> length (drop i t) - length opn" using ij by simp
    ultimately have "\<not> ci_prefix cl (drop (length opn + (j - i - length opn)) (drop i t))" by blast
    moreover have "length opn + (j - i - length opn) + i = j" using ij by simp
    ultimately show False using ij(4) by simp
  qed
next
  assume n: "\<not> pattern_occurs opn cl t"
  show "re_search opn cl t = None"
    unfolding re_search_None_iff match_at_None_iff
  proof (intro allI impI)
    fix k assume k: "k \<le> length t"
    show "\<not> ci_prefix opn (drop k t) \<or>
          (\<forall>ka\<le>length (drop k t) - length opn. \<not> ci_prefix cl (drop (length opn + ka) (drop k t)))"
    proof (cases "ci_prefix opn (drop k t)")
      case False then show ?thesis by simp
    next
      case True
      then have len: "length opn \<le> length (drop k t)" by (rule ci_prefix_length)
      have "\<forall>ka\<le>length (drop k t) - length opn. \<not> ci_prefix cl (drop (length opn + ka) (drop k t))"
      proof (intro allI impI notI)
        fix ka assume ka: "ka \<le> length (drop k t) - length opn"
          and c: "ci_prefix cl (drop (length opn + ka) (drop k t))"
        have "pattern_occurs opn cl t"
          unfolding pattern_occurs_def
        proof (intro exI conjI)
          show "k + length opn \<le> k + length opn + ka" by simp
          show "k + length opn + ka \<le> length t" using ka len k by simp
          show "ci_prefix opn (drop k t)" by (rule True)
          show "ci_prefix cl (drop (k + length opn + ka) t)" using c by (simp add: add.commute add.left_commute)
        qed
        with n show False by simp
      qed
      then show ?thesis by simp
    qed
  qed
qed

lemma no_occ_iff: "no_occ p pre rest \<longleftrightarrow> (\<forall>k<length pre. \<not> ci_prefix p (drop k (pre @ rest)))"
proof (induction pre)
  case Nil
  then show ?case by simp
next
  case (Cons c pre)
  have "(\<forall>k<length (c # pre). \<not> ci_prefix p (drop k ((c # pre) @ rest))) \<longleftrightarrow>
        (\<not> ci_prefix p (c # pre @ rest) \<and> (\<forall>k<length pre. \<not> ci_prefix p (drop k (pre @ rest))))"
    (is "?L \<longleftrightarrow> ?R")
  proof
    assume l: ?L
    then have "\<not> ci_prefix p (drop 0 ((c # pre) @ rest))" by (metis length_greater_0_conv list.distinct(1))
    moreover have "\<forall>k<length pre. \<not> ci_prefix p (drop k (pre @ rest))"
    proof (intro allI impI)
      fix k assume "k < length pre"
      then have "Suc k < length (c # pre)" by simp
      with l have "\<not> ci_prefix p (drop (Suc k) ((c # pre) @ rest))" by blast
      then show "\<not> ci_prefix p (drop k (pre @ rest))" by simp
    qed
    ultimately show ?R by simp
  next
    assume r: ?R
    show ?L
    proof (intro allI impI)
      fix k assume "k < length (c # pre)"
      then show "\<not> ci_prefix p (drop k ((c # pre) @ rest))" using r by (cases k) auto
    qed
  qed
  with Cons.IH show ?case by simp
qed

lemma no_occ_all:
  assumes "p \<noteq> []" "no_occ p t []"
  shows "\<forall>k\<le>length t. \<not> ci_prefix p (drop k t)"
proof (intro allI impI)
  fix k assume k: "k \<le> length t"
  show "\<not> ci_prefix p (drop k t)"
  proof (cases "k < length t")
    case True
    with assms(2) show ?thesis by (simp add: no_occ_iff)
  next
    case False
    with k have "drop k t = []" by simp
    with assms(1) show ?thesis by (cases p) auto
  qed
qed


text \<open>Evaluation of case-insensitive comparisons on character literals.\<close>

lemma eq_char_of_iff: "c = char_of (n::nat) \<longleftrightarrow> take_bit 8 n = (of_char c :: nat)"
  using char_of_eq_iff [of n c] by auto

lemmas ci_eval = ascii_lower_def eq_char_of_iff char_of_eq_iff

lemma ci_prefix_take: "ci_prefix p s \<Longrightarrow> ci_prefix p (take (length p) s)"
  by (induction p s rule: ci_prefix.induct) auto

text \<open>
  Whenever a pattern occurs in a text, the text splits at the first occurrence of the
  opening literal and at the first occurrence of the closing literal after it.
\<close>

lemma pattern_occurs_split:
  assumes "pattern_occurs opn cl t"
  shows "\<exists>pre d mid c post. t = pre @ d @ mid @ c @ post \<and>
           length d = length opn \<and> ci_prefix opn d \<and> length c = length cl \<and> ci_prefix cl c \<and>
           (\<forall>k<length pre. \<not> ci_prefix opn (drop k t)) \<and>
           (\<forall>k<length mid. \<not> ci_prefix cl (drop k (mid @ c @ post)))"
proof -
  from assms obtain i j where ij: "i + length opn \<le> j" "j \<le> length t"
    "ci_prefix opn (drop i t)" "ci_prefix cl (drop j t)"
    by (auto simp: pattern_occurs_def)
  define i0 where "i0 = (LEAST i. ci_prefix opn (drop i t))"
  have i0: "ci_prefix opn (drop i0 t)" unfolding i0_def using ij(3) by (rule LeastI)
  have i0_le: "i0 \<le> i" unfolding i0_def using ij(3) by (rule Least_le)
  have i0_min: "\<not> ci_prefix opn (drop k t)" if "k < i0" for k
    using that unfolding i0_def by (rule not_less_Least)
  define Q where "Q = (\<lambda>j. i0 + length opn \<le> j \<and> ci_prefix cl (drop j t))"
  define j0 where "j0 = (LEAST j. Q j)"
  have Qj: "Q j" using ij i0_le by (simp add: Q_def)
  have j0: "Q j0" unfolding j0_def using Qj by (rule LeastI)
  have j0_le: "j0 \<le> j" unfolding j0_def using Qj by (rule Least_le)
  have j0_min: "\<not> Q k" if "k < j0" for k
    using that unfolding j0_def by (rule not_less_Least)
  from j0 have j0a: "i0 + length opn \<le> j0" and j0b: "ci_prefix cl (drop j0 t)"
    by (simp_all add: Q_def)
  from j0b have lc: "length cl \<le> length (drop j0 t)" by (rule ci_prefix_length)
  from j0_le ij(2) have j0t: "j0 \<le> length t" by simp
  define pre where "pre = take i0 t"
  define d where "d = take (length opn) (drop i0 t)"
  define mid where "mid = take (j0 - (i0 + length opn)) (drop (i0 + length opn) t)"
  define c where "c = take (length cl) (drop j0 t)"
  define post where "post = drop (j0 + length cl) t"
  have len_pre: "length pre = i0" using j0a j0t by (simp add: pre_def)
  have len_d: "length d = length opn" using j0a j0t by (simp add: d_def)
  have len_mid: "length mid = j0 - (i0 + length opn)" using j0t by (simp add: mid_def)
  have len_c: "length c = length cl" using lc by (simp add: c_def)
  have r3: "drop j0 t = c @ post"
  proof -
    have "drop (j0 + length cl) t = drop (length cl) (drop j0 t)" by (simp add: add.commute)
    then show ?thesis unfolding c_def post_def by (simp only: append_take_drop_id)
  qed
  have r2: "drop (i0 + length opn) t = mid @ drop j0 t"
  proof -
    have a: "drop j0 t = drop (j0 - (i0 + length opn)) (drop (i0 + length opn) t)"
      using j0a by simp
    show ?thesis unfolding mid_def a by (simp only: append_take_drop_id)
  qed
  have r1: "drop i0 t = d @ drop (i0 + length opn) t"
  proof -
    have "drop (i0 + length opn) t = drop (length opn) (drop i0 t)" by (simp add: add.commute)
    then show ?thesis unfolding d_def by (simp only: append_take_drop_id)
  qed
  have t: "t = pre @ d @ mid @ c @ post"
  proof -
    have "t = pre @ drop i0 t" by (simp add: pre_def)
    with r1 r2 r3 show ?thesis by simp
  qed
  have dm: "drop k (mid @ c @ post) = drop (i0 + length opn + k) t" for k
  proof -
    have "mid @ c @ post = drop (i0 + length opn) t" using r2 r3 by simp
    then show ?thesis by (simp add: add.commute)
  qed
  have "\<forall>k<length mid. \<not> ci_prefix cl (drop k (mid @ c @ post))"
  proof (intro allI impI)
    fix k assume "k < length mid"
    with len_mid have "i0 + length opn + k < j0" by simp
    then have "\<not> Q (i0 + length opn + k)" by (rule j0_min)
    then have "\<not> ci_prefix cl (drop (i0 + length opn + k) t)" by (simp add: Q_def)
    then show "\<not> ci_prefix cl (drop k (mid @ c @ post))" unfolding dm .
  qed
  moreover have "\<forall>k<length pre. \<not> ci_prefix opn (drop k t)"
    using i0_min len_pre by simp
  moreover have "ci_prefix opn d" unfolding d_def using i0 by (rule ci_prefix_take)
  moreover have "ci_prefix cl c" unfolding c_def using j0b by (rule ci_prefix_take)
  ultimately show ?thesis using t len_d len_c by blast
qed

subsection \<open>C4: a doctype document is returned verbatim\<close>

text \<open>
  Claim C4. Let the text be \<open>pre @ d @ mid @ c @ post\<close>, where \<open>d\<close> is the first occurrence of
  the doctype declaration \<^verbatim>\<open><!DOCTYPE html>\<close> (in any letter case) and \<open>c\<close> is the first
  closing \<^verbatim>\<open></html>\<close> tag after it. Then \<open>extract_html_from_response\<close> returns exactly the
  block \<open>d @ mid @ c\<close>, character for character as it stands in the text, whatever the prose
  before and after it is. The result does not depend on whether the \<^verbatim>\<open><html\<close> and
  \<^verbatim>\<open><body\<close> patterns would match: they are not consulted. By \<open>pattern_occurs_split\<close> every
  text in which a doctype declaration is followed by a closing \<^verbatim>\<open></html>\<close> tag splits in
  this way, so the statement covers every such text.
\<close>

theorem extract_doctype_block:
  assumes "length d = 15" "ci_prefix ''<!DOCTYPE html>'' d"
    and "length c = 7" "ci_prefix ''</html>'' c"
    and "\<forall>k<length pre. \<not> ci_prefix ''<!DOCTYPE html>'' (drop k (pre @ d @ mid @ c @ post))"
    and "\<forall>k<length mid. \<not> ci_prefix ''</html>'' (drop k (mid @ c @ post))"
  shows "extract_html_from_response (pre @ d @ mid @ c @ post) = Some (d @ mid @ c)"
proof -
  have "re_search ''<!DOCTYPE html>'' ''</html>'' (pre @ d @ mid @ c @ post) = Some (d @ mid @ c)"
    using assms by (intro search_block) simp_all
  then show ?thesis by (simp add: extract_html_from_response_def)
qed

text \<open>The end-to-end scenario of the specification: a report between two lines of prose.\<close>

theorem extract_doctype_block_witness:
  "extract_html_from_response
     (''Here's your report:'' @ [CHR 0x0A] @
      ''<!DOCTYPE html><html><body><h1>Hi</h1></body></html>'' @ [CHR 0x0A] @ ''Enjoy!'')
   = Some ''<!DOCTYPE html><html><body><h1>Hi</h1></body></html>''"
proof -
  have a: "\<forall>k<length (''Here's your report:'' @ [CHR 0x0A]).
      \<not> ci_prefix ''<!DOCTYPE html>''
         (drop k ((''Here's your report:'' @ [CHR 0x0A]) @ ''<!DOCTYPE html>'' @
                  ''<html><body><h1>Hi</h1></body>'' @ ''</html>'' @ ([CHR 0x0A] @ ''Enjoy!'')))"
    unfolding no_occ_iff [symmetric] by (simp add: ci_eval)
  have b: "\<forall>k<length ''<html><body><h1>Hi</h1></body>''.
      \<not> ci_prefix ''</html>''
         (drop k (''<html><body><h1>Hi</h1></body>'' @ ''</html>'' @ ([CHR 0x0A] @ ''Enjoy!'')))"
    unfolding no_occ_iff [symmetric] by (simp add: ci_eval)
  have c: "ci_prefix ''<!DOCTYPE html>'' ''<!DOCTYPE html>''" "ci_prefix ''</html>'' ''</html>''"
    by (simp_all add: ci_eval)
  show ?thesis
    using extract_doctype_block [OF _ c(1) _ c(2) a b] by simp
qed

subsection \<open>C5: an html fragment gets a doctype line\<close>

text \<open>
  Claim C5. If the text contains no doctype declaration and is \<open>pre @ h @ mid @ c @ post\<close>,
  where \<open>h\<close> is the first occurrence of \<^verbatim>\<open><html\<close> (in any letter case, the fragment may
  span newlines) and \<open>c\<close> the first closing \<^verbatim>\<open></html>\<close> after it, then the result is the
  line \<^verbatim>\<open><!DOCTYPE html>\<close> followed by the fragment \<open>h @ mid @ c\<close>, which is not altered.
\<close>

theorem extract_html_fragment:
  assumes "\<forall>k\<le>length (pre @ h @ mid @ c @ post).
             \<not> ci_prefix ''<!DOCTYPE html>'' (drop k (pre @ h @ mid @ c @ post))"
    and "length h = 5" "ci_prefix ''<html'' h"
    and "length c = 7" "ci_prefix ''</html>'' c"
    and "\<forall>k<length pre. \<not> ci_prefix ''<html'' (drop k (pre @ h @ mid @ c @ post))"
    and "\<forall>k<length mid. \<not> ci_prefix ''</html>'' (drop k (mid @ c @ post))"
  shows "extract_html_from_response (pre @ h @ mid @ c @ post)
         = Some (''<!DOCTYPE html>'' @ [CHR 0x0A] @ h @ mid @ c)"
proof -
  have "re_search ''<!DOCTYPE html>'' ''</html>'' (pre @ h @ mid @ c @ post) = None"
    using assms(1) by (rule search_absent)
  moreover have "re_search ''<html'' ''</html>'' (pre @ h @ mid @ c @ post) = Some (h @ mid @ c)"
    using assms(2-7) by (intro search_block) simp_all
  ultimately show ?thesis by (simp add: extract_html_from_response_def doctype_line_def)
qed

theorem extract_html_fragment_witness:
  "extract_html_from_response
     (''Sure: <HTML lang=en>'' @ [CHR 0x0A] @ ''<p>x</p></html> bye </html>'')
   = Some (''<!DOCTYPE html>'' @ [CHR 0x0A] @ ''<HTML lang=en>'' @ [CHR 0x0A] @ ''<p>x</p></html>'')"
proof -
  have n: "\<forall>k\<le>length (''Sure: '' @ ''<HTML'' @ ('' lang=en>'' @ [CHR 0x0A] @ ''<p>x</p>'') @
                        ''</html>'' @ '' bye </html>'').
      \<not> ci_prefix ''<!DOCTYPE html>''
         (drop k (''Sure: '' @ ''<HTML'' @ ('' lang=en>'' @ [CHR 0x0A] @ ''<p>x</p>'') @
                  ''</html>'' @ '' bye </html>''))"
    by (rule no_occ_all) (simp_all add: ci_eval)
  have a: "\<forall>k<length ''Sure: ''.
      \<not> ci_prefix ''<html''
         (drop k (''Sure: '' @ ''<HTML'' @ ('' lang=en>'' @ [CHR 0x0A] @ ''<p>x</p>'') @
                  ''</html>'' @ '' bye </html>''))"
    unfolding no_occ_iff [symmetric] by (simp add: ci_eval)
  have b: "\<forall>k<length ('' lang=en>'' @ [CHR 0x0A] @ ''<p>x</p>'').
      \<not> ci_prefix ''</html>''
         (drop k (('' lang=en>'' @ [CHR 0x0A] @ ''<p>x</p>'') @ ''</html>'' @ '' bye </html>''))"
    unfolding no_occ_iff [symmetric] by (simp add: ci_eval)
  have c: "ci_prefix ''<html'' ''<HTML''" "ci_prefix ''</html>'' ''</html>''"
    by (simp_all add: ci_eval)
  show ?thesis
    using extract_html_fragment [OF n _ c(1) _ c(2) a b] by simp
qed

subsection \<open>C6: a body fragment is wrapped in a document shell\<close>

text \<open>
  Claim C6. If the text contains neither a doctype declaration nor an \<^verbatim>\<open><html\<close> tag and is
  \<open>pre @ b @ mid @ c @ post\<close>, where \<open>b\<close> is the first occurrence of \<^verbatim>\<open><body\<close> (in any letter
  case, the fragment may span newlines) and \<open>c\<close> the first closing \<^verbatim>\<open></body>\<close> after it,
  then the result is a complete document: the fixed head of the shell, the fragment
  \<open>b @ mid @ c\<close> verbatim, and the closing \<^verbatim>\<open></html>\<close>. The head of the shell contains the
  UTF-8 charset meta tag and the fixed title.
\<close>

theorem extract_body_fragment:
  assumes "\<forall>k\<le>length (pre @ b @ mid @ c @ post).
             \<not> ci_prefix ''<!DOCTYPE html>'' (drop k (pre @ b @ mid @ c @ post))"
    and "\<forall>k\<le>length (pre @ b @ mid @ c @ post).
             \<not> ci_prefix ''<html'' (drop k (pre @ b @ mid @ c @ post))"
    and "length b = 5" "ci_prefix ''<body'' b"
    and "length c = 7" "ci_prefix ''</body>'' c"
    and "\<forall>k<length pre. \<not> ci_prefix ''<body'' (drop k (pre @ b @ mid @ c @ post))"
    and "\<forall>k<length mid. \<not> ci_prefix ''</body>'' (drop k (mid @ c @ post))"
  shows "extract_html_from_response (pre @ b @ mid @ c @ post)
           = Some (shell_head @ (b @ mid @ c) @ [CHR 0x0A] @ ''</html>'')
         \<and> sublist charset_meta shell_head
         \<and> sublist (''<title>'' @ report_title @ ''</title>'') shell_head
         \<and> prefix (''<!DOCTYPE html>'' @ [CHR 0x0A] @ ''<html>'') shell_head"
proof -
  have "re_search ''<!DOCTYPE html>'' ''</html>'' (pre @ b @ mid @ c @ post) = None"
    using assms(1) by (rule search_absent)
  moreover have "re_search ''<html'' ''</html>'' (pre @ b @ mid @ c @ post) = None"
    using assms(2) by (rule search_absent)
  moreover have "re_search ''<body'' ''</body>'' (pre @ b @ mid @ c @ post) = Some (b @ mid @ c)"
    using assms(3-8) by (intro search_block) simp_all
  ultimately have r: "extract_html_from_response (pre @ b @ mid @ c @ post)
      = Some (shell_head @ (b @ mid @ c) @ [CHR 0x0A] @ ''</html>'')"
    by (simp add: extract_html_from_response_def shell_tail_def)
  have "shell_head = (''<!DOCTYPE html>'' @ [CHR 0x0A] @ ''<html>'' @ [CHR 0x0A] @ ''<head>'' @
           [CHR 0x0A] @ ''    '') @ charset_meta @
         ([CHR 0x0A] @ ''    <title>'' @ report_title @ ''</title>'' @ [CHR 0x0A] @ ''</head>'' @
           [CHR 0x0A])"
    by (simp add: shell_head_def)
  then have m: "sublist charset_meta shell_head"
    unfolding sublist_def by blast
  have "shell_head = (''<!DOCTYPE html>'' @ [CHR 0x0A] @ ''<html>'' @ [CHR 0x0A] @ ''<head>'' @
           [CHR 0x0A] @ ''    '' @ charset_meta @ [CHR 0x0A] @ ''    '') @
         (''<title>'' @ report_title @ ''</title>'') @ ([CHR 0x0A] @ ''</head>'' @ [CHR 0x0A])"
    by (simp add: shell_head_def)
  then have t: "sublist (''<title>'' @ report_title @ ''</title>'') shell_head"
    unfolding sublist_def by blast
  have p: "prefix (''<!DOCTYPE html>'' @ [CHR 0x0A] @ ''<html>'') shell_head"
    by (simp add: shell_head_def)
  from r m t p show ?thesis by blast
qed

theorem extract_body_fragment_witness:
  "extract_html_from_response (''ok <Body class=r>'' @ [CHR 0x0A] @ ''<p>x</p></BODY> bye'')
   = Some (shell_head @ ''<Body class=r>'' @ [CHR 0x0A] @ ''<p>x</p></BODY>'' @ [CHR 0x0A] @
           ''</html>'')"
proof -
  have n1: "\<forall>k\<le>length (''ok '' @ ''<Body'' @ ('' class=r>'' @ [CHR 0x0A] @ ''<p>x</p>'') @
                         ''</BODY>'' @ '' bye'').
      \<not> ci_prefix ''<!DOCTYPE html>''
         (drop k (''ok '' @ ''<Body'' @ ('' class=r>'' @ [CHR 0x0A] @ ''<p>x</p>'') @
                  ''</BODY>'' @ '' bye''))"
    by (rule no_occ_all) (simp_all add: ci_eval)
  have n2: "\<forall>k\<le>length (''ok '' @ ''<Body'' @ ('' class=r>'' @ [CHR 0x0A] @ ''<p>x</p>'') @
                         ''</BODY>'' @ '' bye'').
      \<not> ci_prefix ''<html''
         (drop k (''ok '' @ ''<Body'' @ ('' class=r>'' @ [CHR 0x0A] @ ''<p>x</p>'') @
                  ''</BODY>'' @ '' bye''))"
    by (rule no_occ_all) (simp_all add: ci_eval)
  have a: "\<forall>k<length ''ok ''.
      \<not> ci_prefix ''<body''
         (drop k (''ok '' @ ''<Body'' @ ('' class=r>'' @ [CHR 0x0A] @ ''<p>x</p>'') @
                  ''</BODY>'' @ '' bye''))"
    unfolding no_occ_iff [symmetric] by (simp add: ci_eval)
  have b: "\<forall>k<length ('' class=r>'' @ [CHR 0x0A] @ ''<p>x</p>'').
      \<not> ci_prefix ''</body>''
         (drop k (('' class=r>'' @ [CHR 0x0A] @ ''<p>x</p>'') @ ''</BODY>'' @ '' bye''))"
    unfolding no_occ_iff [symmetric] by (simp add: ci_eval)
  have c: "ci_prefix ''<body'' ''<Body''" "ci_prefix ''</body>'' ''</BODY>''"
    by (simp_all add: ci_eval)
  show ?thesis
    using extract_body_fragment [OF n1 n2 _ c(1) _ c(2) a b] by simp
qed

subsection \<open>C7: no pattern, no document\<close>

text \<open>
  Claim C7. \<open>extract_html_from_response\<close> is a total function from strings to an optional
  string: on no text does it raise. It returns the absent value \<open>None\<close> exactly when none
  of the three patterns (doctype document, html fragment, body fragment) occurs in the
  text; in particular it returns \<open>None\<close> on the empty string.
\<close>

theorem extract_none_iff:
  "extract_html_from_response t = None \<longleftrightarrow>
     \<not> pattern_occurs ''<!DOCTYPE html>'' ''</html>'' t \<and>
     \<not> pattern_occurs ''<html'' ''</html>'' t \<and>
     \<not> pattern_occurs ''<body'' ''</body>'' t"
  by (simp add: extract_html_from_response_def re_search_None_iff_occurs [symmetric]
      split: option.splits)

theorem extract_none_iff_witness:
  "extract_html_from_response '''' = None \<and>
   extract_html_from_response ''No report today, </html> or <body alone.'' = None"
proof -
  have e: "\<not> pattern_occurs opn cl ''''" if "opn \<noteq> []" for opn cl
    using that by (cases opn) (auto simp: pattern_occurs_def)
  have "\<not> pattern_occurs ''<!DOCTYPE html>'' ''</html>'' ''No report today, </html> or <body alone.''"
    by (simp add: re_search_None_iff_occurs [symmetric] match_at_def ci_eval)
  moreover
  have "\<not> pattern_occurs ''<html'' ''</html>'' ''No report today, </html> or <body alone.''"
    by (simp add: re_search_None_iff_occurs [symmetric] match_at_def ci_eval)
  moreover
  have "\<not> pattern_occurs ''<body'' ''</body>'' ''No report today, </html> or <body alone.''"
    by (simp add: re_search_None_iff_occurs [symmetric] match_at_def ci_eval)
  ultimately show ?thesis
    using extract_none_iff [of "''''"]
      extract_none_iff [of "''No report today, </html> or <body alone.''"]
    by (simp add: e)
qed

section \<open>Properties of the backend selector\<close>


lemma new_log_append: "log w' = log w @ seg \<Longrightarrow> new_log w w' = seg"
  by (simp add: new_log_def)

lemma new_log_self: "new_log w w = []"
  by (simp add: new_log_def)

lemma do_event_log:
  "do_event E ev w = (r, w') \<Longrightarrow> log w' = log w @ [(ev, r, files w')]"
  by (auto simp: do_event_def Let_def)

lemma do_pw_log:
  "do_pw E a c w = (r, w') \<Longrightarrow> log w' = log w @ [(EvPw c, r, files w')]"
  by (auto simp: do_pw_def Let_def)

lemma block_ok_mono:
  "block_ok png req plan f seg \<Longrightarrow> subseq plan plan' \<Longrightarrow> subseq req' req \<Longrightarrow>
   block_ok png req' plan' f seg"
  unfolding block_ok_def
  by (cases f) (auto intro: subseq_order.order_trans)

lemma block_run_mono:
  "block_run png req plan w f w' \<Longrightarrow> subseq plan plan' \<Longrightarrow> subseq req' req \<Longrightarrow>
   block_run png req' plan' w f w'"
  unfolding block_run_def by (auto intro: block_ok_mono)

lemma block_ok_append:
  assumes 1: "block_ok png r1 p1 f1 s1" and c: "continues f1" and 2: "block_ok png r2 p2 f2 s2"
  shows "block_ok png (r1 @ r2) (p1 @ p2) f2 (s1 @ s2)"
proof -
  from 1 c have a1: "subseq (map fst s1) p1"
    and n1: "\<forall>x\<in>set s1. \<not> attempt_ok png x \<and> \<not> uncaught_failure x"
    and q1: "subseq r1 (map fst s1)"
    by (cases f1; simp add: block_ok_def)+
  from 2 have a2: "subseq (map fst s2) p2"
    and b2: "\<forall>x\<in>set (butlast s2). \<not> attempt_ok png x \<and> \<not> uncaught_failure x"
    by (simp_all add: block_ok_def)
  have s: "subseq (map fst (s1 @ s2)) (p1 @ p2)"
    using a1 a2 by (simp add: list_emb_append_mono)
  have b: "\<forall>x\<in>set (butlast (s1 @ s2)). \<not> attempt_ok png x \<and> \<not> uncaught_failure x"
    using n1 b2 by (auto simp: butlast_append dest: in_set_butlastD)
  show ?thesis
  proof (cases f2)
    case (Returned b')
    with 2 have "b' \<and> s2 \<noteq> [] \<and> attempt_ok png (last s2)" by (simp add: block_ok_def)
    with s b Returned show ?thesis by (simp add: block_ok_def)
  next
    case (Uncaught e)
    with 2 have "s2 \<noteq> [] \<and> uncaught_failure (last s2)" by (simp add: block_ok_def)
    with s b Uncaught show ?thesis by (simp add: block_ok_def)
  next
    case Completed
    with 2 have "(\<forall>x\<in>set s2. \<not> attempt_ok png x \<and> \<not> uncaught_failure x) \<and> subseq r2 (map fst s2)"
      by (simp add: block_ok_def)
    with s b n1 q1 Completed show ?thesis
      by (auto simp: block_ok_def list_emb_append_mono)
  next
    case Handled
    with 2 have "(\<forall>x\<in>set s2. \<not> attempt_ok png x \<and> \<not> uncaught_failure x) \<and> subseq r2 (map fst s2)"
      by (simp add: block_ok_def)
    with s b n1 q1 Handled show ?thesis
      by (auto simp: block_ok_def list_emb_append_mono)
  qed
qed

lemma block_run_append:
  assumes 1: "block_run png r1 p1 w f1 w1" and c: "continues f1"
    and 2: "block_run png r2 p2 w1 f2 w2"
  shows "block_run png (r1 @ r2) (p1 @ p2) w f2 w2"
proof -
  from 1 have l1: "log w1 = log w @ new_log w w1" by (simp add: block_run_def)
  from 2 have l2: "log w2 = log w1 @ new_log w1 w2" by (simp add: block_run_def)
  from l1 l2 have l: "log w2 = log w @ (new_log w w1 @ new_log w1 w2)" by simp
  then have n: "new_log w w2 = new_log w w1 @ new_log w1 w2" by (rule new_log_append)
  have "block_ok png (r1 @ r2) (p1 @ p2) f2 (new_log w w1 @ new_log w1 w2)"
    using 1 c 2 by (intro block_ok_append [where ?f1.0 = f1]) (simp_all add: block_run_def)
  with l n 2 show ?thesis by (simp add: block_run_def)
qed

lemma block_run_skip: "block_run png [] [] w Completed w"
  by (simp add: block_run_def block_ok_def new_log_self)

lemma try_run_block:
  assumes "try_run E cmd png w = (f, w')"
  shows "block_run png [EvRun cmd] [EvRun cmd] w f w'"
proof -
  obtain r w1 where d: "do_event E (EvRun cmd) w = (r, w1)" by (cases "do_event E (EvRun cmd) w")
  then have l: "log w1 = log w @ [(EvRun cmd, r, files w1)]" by (rule do_event_log)
  then have n: "new_log w w1 = [(EvRun cmd, r, files w1)]" by (rule new_log_append)
  from assms d have w': "w' = w1"
    by (auto simp: try_run_def split: option.splits if_splits)
  show ?thesis
    using assms d l n unfolding w'
    by (auto simp: try_run_def block_run_def block_ok_def path_exists_def
        split: option.splits if_splits)
qed

lemma try_run_flow: "try_run E cmd png w = (f, w') \<Longrightarrow> f \<noteq> Returned False"
  by (auto simp: try_run_def split: option.splits if_splits prod.splits)


lemma run_steps_append:
  "run_steps (xs @ ys) w =
     (case run_steps xs w of (None, w') \<Rightarrow> run_steps ys w' | (Some e, w') \<Rightarrow> (Some e, w'))"
  by (induction xs arbitrary: w) (auto split: prod.splits option.splits)

lemma do_pw_block:
  assumes "do_pw E a c w = (r, w')" and "c \<noteq> Close"
  shows "block_run png [] [EvPw c] w Completed w'"
proof -
  from assms(1) have l: "log w' = log w @ [(EvPw c, r, files w')]" by (rule do_pw_log)
  then have "new_log w w' = [(EvPw c, r, files w')]" by (rule new_log_append)
  with l assms(2) show ?thesis by (simp add: block_run_def block_ok_def)
qed

lemma pw_steps_block:
  assumes "run_steps (map (do_pw E a) cs) w = (r, w')" and "Close \<notin> set cs"
  shows "block_run png [] (map EvPw cs) w Completed w'"
  using assms
proof (induction cs arbitrary: w)
  case Nil
  then show ?case by (simp add: block_run_skip)
next
  case (Cons c cs)
  obtain r1 w1 where d: "do_pw E a c w = (r1, w1)" by (cases "do_pw E a c w")
  from Cons.prems(2) have c: "c \<noteq> Close" by auto
  have b1: "block_run png [] [EvPw c] w Completed w1" using d c by (rule do_pw_block)
  show ?case
  proof (cases r1)
    case None
    with Cons.prems(1) d have "run_steps (map (do_pw E a) cs) w1 = (r, w')" by simp
    then have "block_run png [] (map EvPw cs) w1 Completed w'"
      using Cons.prems(2) by (intro Cons.IH) auto
    with b1 have "block_run png ([] @ []) ([EvPw c] @ map EvPw cs) w Completed w'"
      by (intro block_run_append [where ?f1.0 = Completed]) simp_all
    then show ?thesis by simp
  next
    case (Some e)
    with Cons.prems(1) d have "w' = w1" by simp
    with b1 show ?thesis by (auto intro: block_run_mono)
  qed
qed

lemma close_block:
  assumes "do_pw E a Close w = (r, w')"
  shows "block_run png [] [EvPw Close] w
           (if r = None \<and> path_exists w' png then Returned True else Completed) w'"
proof -
  from assms have l: "log w' = log w @ [(EvPw Close, r, files w')]" by (rule do_pw_log)
  then have "new_log w w' = [(EvPw Close, r, files w')]" by (rule new_log_append)
  with l show ?thesis by (auto simp: block_run_def block_ok_def path_exists_def)
qed

lemma playwright_block:
  assumes "html_to_png_with_playwright E html png w = (b1, w1)"
  shows "block_run png [] (playwright_plan E html png) w (if b1 then Returned True else Completed) w1"
proof (cases "find_spec E ''playwright'' \<and> import_raises E ''playwright.sync_api'' = None")
  case False
  with assms have "w1 = w" "\<not> b1"
    by (auto simp: html_to_png_with_playwright_def split: option.splits)
  then show ?thesis by (simp add: block_run_def block_ok_def new_log_self)
next
  case True
  define cs where "cs = [Launch [], NewPage None, Goto (file_url E html) None None,
        WaitForLoadState ''networkidle'' None, Screenshot png True None]"
  have nc: "Close \<notin> set cs" by (simp add: cs_def)
  have plan: "playwright_plan E html png = map EvPw cs @ [EvPw Close]"
    by (simp add: playwright_plan_def cs_def)
  have steps: "[do_pw E SyncApi (Launch []),
                  do_pw E SyncApi (NewPage None),
                  do_pw E SyncApi (Goto (file_url E html) None None),
                  do_pw E SyncApi (WaitForLoadState ''networkidle'' None),
                  do_pw E SyncApi (Screenshot png True None),
                  do_pw E SyncApi Close] = map (do_pw E SyncApi) cs @ [do_pw E SyncApi Close]"
    by (simp add: cs_def)
  obtain r2 w2 where r2: "run_steps (map (do_pw E SyncApi) cs) w = (r2, w2)"
    by (cases "run_steps (map (do_pw E SyncApi) cs) w")
  then have b2: "block_run png [] (map EvPw cs) w Completed w2"
    using nc by (rule pw_steps_block)
  show ?thesis
  proof (cases r2)
    case (Some e)
    with assms True r2 have "w1 = w2" "\<not> b1"
      unfolding html_to_png_with_playwright_def steps run_steps_append
      by (auto split: option.splits)
    with b2 show ?thesis unfolding plan by (auto intro: block_run_mono)
  next
    case None
    obtain r3 w3 where r3: "do_pw E SyncApi Close w2 = (r3, w3)"
      by (cases "do_pw E SyncApi Close w2")
    with assms True r2 None have e: "w1 = w3" "b1 \<longleftrightarrow> r3 = None \<and> path_exists w3 png"
      unfolding html_to_png_with_playwright_def steps run_steps_append
      by (auto split: option.splits)
    from r3 have "block_run png [] [EvPw Close] w2
           (if r3 = None \<and> path_exists w3 png then Returned True else Completed) w3"
      by (rule close_block)
    with b2 have "block_run png ([] @ []) (map EvPw cs @ [EvPw Close]) w
           (if r3 = None \<and> path_exists w3 png then Returned True else Completed) w3"
      by (intro block_run_append [where ?f1.0 = Completed]) simp_all
    with e show ?thesis unfolding plan by simp
  qed
qed

lemma found_browser_block_run:
  assumes "found_browser_block E found html png w = (f, w')"
  shows "block_run png (take 1 (found_browser_plan E found html png))
           (found_browser_plan E found html png) w f w' \<and> f \<noteq> Returned False"
proof (cases found)
  case None
  with assms show ?thesis
    by (simp add: found_browser_block_def found_browser_plan_def block_run_skip)
next
  case (Some bp)
  obtain n p where bp: "bp = (n, p)" by (cases bp)
  consider (chrome) "n = ''chrome''" "p \<noteq> []" | (edge) "n = ''edge''" "p \<noteq> []"
    | (other) "\<not> (n = ''chrome'' \<and> p \<noteq> [])" "\<not> (n = ''edge'' \<and> p \<noteq> [])"
    by blast
  then show ?thesis
  proof cases
    case chrome
    with assms Some bp have t: "try_run E (headless_cmd_eq E p html png) png w = (f, w')"
      by (simp add: found_browser_block_def)
    from chrome Some bp have pl: "found_browser_plan E found html png = [EvRun (headless_cmd_eq E p html png)]"
      by (simp add: found_browser_plan_def)
    show ?thesis unfolding pl using try_run_block [OF t] try_run_flow [OF t] by simp
  next
    case edge
    from edge Some bp have pl: "found_browser_plan E found html png =
        [EvRun (headless_cmd_two E p html png)] @ [EvRun (headless_cmd_eq E p html png)]"
      by (simp add: found_browser_plan_def)
    obtain f1 w1 where t1: "try_run E (headless_cmd_two E p html png) png w = (f1, w1)"
      by (cases "try_run E (headless_cmd_two E p html png) png w")
    note b1 = try_run_block [OF t1]
    show ?thesis
    proof (cases "f1 = Completed")
      case True
      with assms Some bp edge t1 have t2: "try_run E (headless_cmd_eq E p html png) png w1 = (f, w')"
        by (simp add: found_browser_block_def)
      have b2: "block_run png [] [EvRun (headless_cmd_eq E p html png)] w1 f w'"
        using try_run_block [OF t2] by (rule block_run_mono) simp_all
      from b1 True have b1': "block_run png [EvRun (headless_cmd_two E p html png)]
              [EvRun (headless_cmd_two E p html png)] w Completed w1" by simp
      have "block_run png ([EvRun (headless_cmd_two E p html png)] @ [])
              ([EvRun (headless_cmd_two E p html png)] @ [EvRun (headless_cmd_eq E p html png)]) w f w'"
        using b1' _ b2 by (rule block_run_append) simp
      then show ?thesis unfolding pl using try_run_flow [OF t2] by simp
    next
      case False
      with assms Some bp edge t1 have e: "f = f1" "w' = w1"
        by (auto simp: found_browser_block_def split: flow.splits)
      from b1 have "block_run png [EvRun (headless_cmd_two E p html png)]
              ([EvRun (headless_cmd_two E p html png)] @ [EvRun (headless_cmd_eq E p html png)]) w f1 w1"
        by (rule block_run_mono) simp_all
      then show ?thesis unfolding pl e using try_run_flow [OF t1] by simp
    qed
  next
    case other
    with assms Some bp show ?thesis
      by (auto simp: found_browser_block_def found_browser_plan_def block_run_skip)
  qed
qed

lemma path_browser_block_run:
  assumes "path_browser_block E html png w = (f, w')"
  shows "block_run png [EvRun (headless_cmd_eq E ''chrome'' html png)]
           [EvRun (headless_cmd_eq E ''chrome'' html png),
            EvRun (headless_cmd_eq E ''msedge'' html png)] w f w' \<and> f \<noteq> Returned False"
proof -
  obtain f1 w1 where t1: "try_run E (headless_cmd_eq E ''chrome'' html png) png w = (f1, w1)"
    by (cases "try_run E (headless_cmd_eq E ''chrome'' html png) png w")
  note b1 = try_run_block [OF t1]
  show ?thesis
  proof (cases "f1 = Handled")
    case True
    with assms t1 have t2: "try_run E (headless_cmd_eq E ''msedge'' html png) png w1 = (f, w')"
      by (simp add: path_browser_block_def)
    have b2: "block_run png [] [EvRun (headless_cmd_eq E ''msedge'' html png)] w1 f w'"
      using try_run_block [OF t2] by (rule block_run_mono) simp_all
    from b1 True have b1': "block_run png [EvRun (headless_cmd_eq E ''chrome'' html png)]
              [EvRun (headless_cmd_eq E ''chrome'' html png)] w Handled w1" by simp
    have "block_run png ([EvRun (headless_cmd_eq E ''chrome'' html png)] @ [])
              ([EvRun (headless_cmd_eq E ''chrome'' html png)] @
               [EvRun (headless_cmd_eq E ''msedge'' html png)]) w f w'"
      using b1' _ b2 by (rule block_run_append) simp
    then show ?thesis using try_run_flow [OF t2] by simp
  next
    case False
    with assms t1 have e: "f = f1" "w' = w1"
      by (auto simp: path_browser_block_def split: flow.splits)
    from b1 have "block_run png [EvRun (headless_cmd_eq E ''chrome'' html png)]
              ([EvRun (headless_cmd_eq E ''chrome'' html png)] @
               [EvRun (headless_cmd_eq E ''msedge'' html png)]) w f1 w1"
      by (rule block_run_mono) simp_all
    then show ?thesis unfolding e using try_run_flow [OF t1] by simp
  qed
qed

lemma manual_fallback_run:
  assumes "manual_fallback E html w = (b, w')"
  shows "block_run png [EvWebOpen (file_url E html)] [EvWebOpen (file_url E html)] w Completed w'
         \<and> \<not> b \<and> (\<exists>r. new_log w w' = [(EvWebOpen (file_url E html), r, files w')])"
proof -
  obtain r w1 where d: "do_event E (EvWebOpen (file_url E html)) w = (r, w1)"
    by (cases "do_event E (EvWebOpen (file_url E html)) w")
  with assms have e: "w' = w1" "\<not> b" by (auto simp: manual_fallback_def)
  from d have l: "log w1 = log w @ [(EvWebOpen (file_url E html), r, files w1)]"
    by (rule do_event_log)
  then have "new_log w w1 = [(EvWebOpen (file_url E html), r, files w1)]" by (rule new_log_append)
  with l e show ?thesis by (simp add: block_run_def block_ok_def)
qed


lemma block_run_exit:
  assumes "block_run png req plan w f w'" "\<not> continues f" "subseq plan plan'"
  shows "block_run png req' plan' w f w'"
  using assms unfolding block_run_def block_ok_def
  by (cases f) (auto intro: subseq_order.order_trans)


lemma flow_case_continue:
  "continues f \<Longrightarrow>
   (case f of Returned b \<Rightarrow> A b | Completed \<Rightarrow> C | Handled \<Rightarrow> C | Uncaught e \<Rightarrow> B e) = C"
  by (cases f) simp_all

lemma flow_case_exit:
  "\<not> continues f \<Longrightarrow> f \<noteq> Returned False \<Longrightarrow>
   (case f of Returned b \<Rightarrow> (b, w) | Completed \<Rightarrow> C | Handled \<Rightarrow> C | Uncaught e \<Rightarrow> (False, w))
   = (f = Returned True, w)"
  by (cases f) auto


lemma convert_html_to_png_run:
  assumes c: "convert_html_to_png E html png w = (b, w')"
    and found: "found = find_browser_path (snd (html_to_png_with_playwright E html png w))"
  shows "\<exists>f. block_run png (required_plan E found html png) (backend_plan E found html png) w f w'
           \<and> (b \<longleftrightarrow> f = Returned True) \<and> f \<noteq> Returned False
           \<and> (continues f \<longrightarrow>
                (\<exists>r. last (new_log w w') = (EvWebOpen (file_url E html), r, files w')))"
proof -
  let ?pw = "playwright_plan E html png"
  let ?wk = "EvRun (wkhtmltoimage_cmd html png)"
  let ?fb = "found_browser_plan E found html png"
  let ?ch = "EvRun (headless_cmd_eq E ''chrome'' html png)"
  let ?ms = "EvRun (headless_cmd_eq E ''msedge'' html png)"
  let ?op = "EvWebOpen (file_url E html)"
  let ?REQ = "required_plan E found html png"
  let ?PLAN = "backend_plan E found html png"
  have PLAN: "?PLAN = ?pw @ [?wk] @ ?fb @ [?ch, ?ms] @ [?op]"
    by (simp add: backend_plan_def)
  have REQ: "?REQ = (([] @ [?wk]) @ take 1 ?fb) @ [?ch] @ [?op]"
    by (simp add: required_plan_def)
  have "?PLAN = ?pw @ ([?wk] @ ?fb @ [?ch, ?ms] @ [?op])"
    by (simp add: backend_plan_def)
  then have P0: "subseq ?pw ?PLAN"
    by (simp only: subseq_rev_drop_many [OF subseq_order.order_refl])
  have "?PLAN = (?pw @ [?wk]) @ (?fb @ [?ch, ?ms] @ [?op])"
    by (simp add: backend_plan_def)
  then have P1: "subseq (?pw @ [?wk]) ?PLAN"
    by (simp only: subseq_rev_drop_many [OF subseq_order.order_refl])
  have "?PLAN = ((?pw @ [?wk]) @ ?fb) @ ([?ch, ?ms] @ [?op])"
    by (simp add: backend_plan_def)
  then have P2: "subseq ((?pw @ [?wk]) @ ?fb) ?PLAN"
    by (simp only: subseq_rev_drop_many [OF subseq_order.order_refl])
  have "?PLAN = (((?pw @ [?wk]) @ ?fb) @ [?ch, ?ms]) @ [?op]"
    by (simp add: backend_plan_def)
  then have P3: "subseq (((?pw @ [?wk]) @ ?fb) @ [?ch, ?ms]) ?PLAN"
    by (simp only: subseq_rev_drop_many [OF subseq_order.order_refl])
  obtain b1 w1 where p: "html_to_png_with_playwright E html png w = (b1, w1)"
    by (cases "html_to_png_with_playwright E html png w")
  with found have fnd: "find_browser_path w1 = found" by simp
  note B0 = playwright_block [OF p]
  show ?thesis
  proof (cases b1)
    case True
    with c p have e: "b = True" "w' = w1" by (simp_all add: convert_html_to_png_def)
    from B0 True have "block_run png [] ?pw w (Returned True) w1" by simp
    then have "block_run png ?REQ ?PLAN w (Returned True) w1"
      using _ P0 by (rule block_run_exit) simp
    with e show ?thesis by (intro exI [of _ "Returned True"]) simp
  next
    case False
    with B0 have B0': "block_run png [] ?pw w Completed w1" by simp
    obtain f2 w2 where t2: "try_run E (wkhtmltoimage_cmd html png) png w1 = (f2, w2)"
      by (cases "try_run E (wkhtmltoimage_cmd html png) png w1")
    have B1: "block_run png ([] @ [?wk]) (?pw @ [?wk]) w f2 w2"
      using B0' _ try_run_block [OF t2] by (rule block_run_append) simp
    note n2 = try_run_flow [OF t2]
    show ?thesis
    proof (cases "continues f2")
      case nc: False
      from c p False t2 fnd nc n2 have "(b, w') = (f2 = Returned True, w2)"
        by (simp add: convert_html_to_png_def Let_def flow_case_exit)
      then have e: "b \<longleftrightarrow> f2 = Returned True" "w' = w2" by simp_all
      from B1 nc P1 have "block_run png ?REQ ?PLAN w f2 w2"
        by (rule block_run_exit)
      with e nc n2 show ?thesis by (intro exI [of _ f2]) simp
    next
      case c2: True
      obtain f3 w3 where t3: "found_browser_block E found html png w2 = (f3, w3)"
        by (cases "found_browser_block E found html png w2")
      note r3 = found_browser_block_run [OF t3]
      have B2: "block_run png (([] @ [?wk]) @ take 1 ?fb) ((?pw @ [?wk]) @ ?fb) w f3 w3"
        using B1 c2 r3 [THEN conjunct1] by (rule block_run_append)
      from r3 have n3: "f3 \<noteq> Returned False" by simp
      show ?thesis
      proof (cases "continues f3")
        case nc: False
        from c p False t2 fnd c2 t3 nc n3 have "(b, w') = (f3 = Returned True, w3)"
          by (simp add: convert_html_to_png_def Let_def flow_case_exit flow_case_continue)
        then have e: "b \<longleftrightarrow> f3 = Returned True" "w' = w3" by simp_all
        from B2 nc P2 have "block_run png ?REQ ?PLAN w f3 w3"
          by (rule block_run_exit)
        with e nc n3 show ?thesis by (intro exI [of _ f3]) simp
      next
        case c3: True
        obtain f4 w4 where t4: "path_browser_block E html png w3 = (f4, w4)"
          by (cases "path_browser_block E html png w3")
        note r4 = path_browser_block_run [OF t4]
        have B3: "block_run png ((([] @ [?wk]) @ take 1 ?fb) @ [?ch])
                    (((?pw @ [?wk]) @ ?fb) @ [?ch, ?ms]) w f4 w4"
          using B2 c3 r4 [THEN conjunct1] by (rule block_run_append)
        from r4 have n4: "f4 \<noteq> Returned False" by simp
        show ?thesis
        proof (cases "continues f4")
          case nc: False
          from c p False t2 fnd c2 t3 c3 t4 nc n4 have "(b, w') = (f4 = Returned True, w4)"
            by (simp add: convert_html_to_png_def Let_def flow_case_exit flow_case_continue)
          then have e: "b \<longleftrightarrow> f4 = Returned True" "w' = w4" by simp_all
          from B3 nc P3 have "block_run png ?REQ ?PLAN w f4 w4"
            by (rule block_run_exit)
          with e nc n4 show ?thesis by (intro exI [of _ f4]) simp
        next
          case c4: True
          obtain b5 w5 where t5: "manual_fallback E html w4 = (b5, w5)"
            by (cases "manual_fallback E html w4")
          from manual_fallback_run [OF t5, of png]
          have B4': "block_run png [?op] [?op] w4 Completed w5" and nb5: "\<not> b5"
            and l5: "\<exists>r. new_log w4 w5 = [(?op, r, files w5)]" by blast+
          from c p False t2 fnd c2 t3 c3 t4 c4 t5 have "(b, w') = (b5, w5)"
            by (simp add: convert_html_to_png_def Let_def flow_case_continue)
          then have e: "b = b5" "w' = w5" by simp_all
          have B4: "block_run png (((([] @ [?wk]) @ take 1 ?fb) @ [?ch]) @ [?op])
                    ((((?pw @ [?wk]) @ ?fb) @ [?ch, ?ms]) @ [?op]) w Completed w5"
            using B3 c4 B4' by (rule block_run_append)
          then have B: "block_run png ?REQ ?PLAN w Completed w5" by (simp add: PLAN REQ)
          from B3 have "log w4 = log w @ new_log w w4" by (simp add: block_run_def)
          moreover from B4' have "log w5 = log w4 @ new_log w4 w5" by (simp add: block_run_def)
          ultimately have "log w5 = log w @ (new_log w w4 @ new_log w4 w5)" by simp
          then have "new_log w w5 = new_log w w4 @ new_log w4 w5" by (rule new_log_append)
          with l5 have "\<exists>r. last (new_log w w5) = (?op, r, files w5)" by auto
          with B e nb5 show ?thesis by (intro exI [of _ Completed]) simp
        qed
      qed
    qed
  qed
qed

subsection \<open>Runs on concrete machines\<close>

lemmas convert_eval =
  convert_html_to_png_def html_to_png_with_playwright_def try_run_def do_event_def
  found_browser_block_def path_browser_block_def manual_fallback_def find_browser_path_def
  browser_paths_def path_exists_def wkhtmltoimage_cmd_def headless_cmd_eq_def
  headless_cmd_two_def file_url_def Let_def events_def new_log_def


lemma attempt_ok_not_failure: "attempt_ok png x \<Longrightarrow> \<not> handled_failure x \<and> \<not> uncaught_failure x"
proof -
  obtain ev r f where x: "x = (ev, r, f)" by (cases x)
  assume "attempt_ok png x"
  then show ?thesis unfolding x by (cases ev) auto
qed

lemma uncaught_not_handled: "uncaught_failure x \<Longrightarrow> \<not> handled_failure x \<and> \<not> attempt_ok png x"
proof -
  obtain ev r f where x: "x = (ev, r, f)" by (cases x)
  assume "uncaught_failure x"
  then show ?thesis unfolding x by (cases ev) auto
qed

lemma required_plan_nonempty: "subseq (required_plan E found html png) (map fst seg) \<Longrightarrow> seg \<noteq> []"
  by (auto simp: required_plan_def)

text \<open>What a call of \<open>convert_html_to_png\<close> has logged, by the three ways it can end.\<close>

lemma convert_html_to_png_summary:
  assumes c: "convert_html_to_png E html png w = (b, w')"
    and found: "found = find_browser_path (snd (html_to_png_with_playwright E html png w))"
  shows "log w' = log w @ new_log w w'"
    and "new_log w w' \<noteq> []"
    and "subseq (map fst (new_log w w')) (backend_plan E found html png)"
    and "\<forall>x\<in>set (butlast (new_log w w')). \<not> attempt_ok png x \<and> \<not> uncaught_failure x"
    and "(b \<and> attempt_ok png (last (new_log w w')) \<and> path_exists w' png) \<or>
         (\<not> b \<and> uncaught_failure (last (new_log w w'))) \<or>
         (\<not> b \<and> fst (last (new_log w w')) = EvWebOpen (file_url E html) \<and>
          \<not> attempt_ok png (last (new_log w w')) \<and> \<not> uncaught_failure (last (new_log w w')) \<and>
          subseq (required_plan E found html png) (map fst (new_log w w')))"
proof -
  from convert_html_to_png_run [OF c found] obtain f where
    B: "block_run png (required_plan E found html png) (backend_plan E found html png) w f w'"
    and bf: "b \<longleftrightarrow> f = Returned True" and nf: "f \<noteq> Returned False"
    and cf: "continues f \<longrightarrow> (\<exists>r. last (new_log w w') = (EvWebOpen (file_url E html), r, files w'))"
    by blast
  from B show "log w' = log w @ new_log w w'" by (simp add: block_run_def)
  from B have ok: "block_ok png (required_plan E found html png) (backend_plan E found html png) f (new_log w w')"
    by (simp add: block_run_def)
  from ok show "subseq (map fst (new_log w w')) (backend_plan E found html png)"
    by (simp add: block_ok_def)
  from ok show "\<forall>x\<in>set (butlast (new_log w w')). \<not> attempt_ok png x \<and> \<not> uncaught_failure x"
    by (simp add: block_ok_def)
  have ne_tri: "new_log w w' \<noteq> [] \<and> ((b \<and> attempt_ok png (last (new_log w w')) \<and> path_exists w' png) \<or>
         (\<not> b \<and> uncaught_failure (last (new_log w w'))) \<or>
         (\<not> b \<and> fst (last (new_log w w')) = EvWebOpen (file_url E html) \<and>
          \<not> attempt_ok png (last (new_log w w')) \<and> \<not> uncaught_failure (last (new_log w w')) \<and>
          subseq (required_plan E found html png) (map fst (new_log w w'))))"
  proof (cases f)
    case (Returned b')
    with nf have f: "f = Returned True" by (cases b') simp_all
    with ok B bf show ?thesis by (simp add: block_ok_def block_run_def)
  next
    case (Uncaught e)
    with ok bf show ?thesis by (simp add: block_ok_def)
  next
    case Completed
    with ok have all: "\<forall>x\<in>set (new_log w w'). \<not> attempt_ok png x \<and> \<not> uncaught_failure x"
      and rq: "subseq (required_plan E found html png) (map fst (new_log w w'))"
      by (simp_all add: block_ok_def)
    from rq have ne: "new_log w w' \<noteq> []" by (rule required_plan_nonempty)
    with all have "\<not> attempt_ok png (last (new_log w w')) \<and> \<not> uncaught_failure (last (new_log w w'))"
      by simp
    moreover from cf Completed have "fst (last (new_log w w')) = EvWebOpen (file_url E html)" by auto
    ultimately show ?thesis using bf Completed rq ne by simp
  next
    case Handled
    with ok have all: "\<forall>x\<in>set (new_log w w'). \<not> attempt_ok png x \<and> \<not> uncaught_failure x"
      and rq: "subseq (required_plan E found html png) (map fst (new_log w w'))"
      by (simp_all add: block_ok_def)
    from rq have ne: "new_log w w' \<noteq> []" by (rule required_plan_nonempty)
    with all have "\<not> attempt_ok png (last (new_log w w')) \<and> \<not> uncaught_failure (last (new_log w w'))"
      by simp
    moreover from cf Handled have "fst (last (new_log w w')) = EvWebOpen (file_url E html)" by auto
    ultimately show ?thesis using bf Handled rq ne by simp
  qed
  then show "new_log w w' \<noteq> []" by simp
  from ne_tri show "(b \<and> attempt_ok png (last (new_log w w')) \<and> path_exists w' png) \<or>
         (\<not> b \<and> uncaught_failure (last (new_log w w'))) \<or>
         (\<not> b \<and> fst (last (new_log w w')) = EvWebOpen (file_url E html) \<and>
          \<not> attempt_ok png (last (new_log w w')) \<and> \<not> uncaught_failure (last (new_log w w')) \<and>
          subseq (required_plan E found html png) (map fst (new_log w w')))" by simp
qed

subsection \<open>Neighbours in the log\<close>
















lemma cmd_two_neq_eq [simp]:
  "headless_cmd_two E p html png \<noteq> headless_cmd_eq E q html' png'"
  "headless_cmd_eq E q html' png' \<noteq> headless_cmd_two E p html png"
  "headless_cmd_two E p html png \<noteq> wkhtmltoimage_cmd html' png'"
  "wkhtmltoimage_cmd html' png' \<noteq> headless_cmd_two E p html png"
  by (simp_all add: headless_cmd_two_def headless_cmd_eq_def wkhtmltoimage_cmd_def)

lemma cmd_eq_inj [simp]:
  "headless_cmd_eq E p html png = headless_cmd_eq E q html png \<longleftrightarrow> p = q"
  "headless_cmd_two E p html png = headless_cmd_two E q html png \<longleftrightarrow> p = q"
  by (simp_all add: headless_cmd_eq_def headless_cmd_two_def)

lemma wk_neq_chrome [simp]:
  "wkhtmltoimage_cmd html png \<noteq> headless_cmd_eq E ''chrome'' html' png'"
  by (simp add: headless_cmd_eq_def wkhtmltoimage_cmd_def)











subsection \<open>C1: the order of the backends\<close>




subsection \<open>C2: failures of single backends\<close>

text \<open>
  Claim C2 says that an exception raised by any one backend never aborts the sequence: the
  next backend is still tried, and when no backend produced the destination file the HTML
  file is opened in the default browser. The code fails this. The handlers around the
  commands name \<^verbatim>\<open>(subprocess.SubprocessError, FileNotFoundError)\<close> only, although the
  comments of the function announce Chrome or Edge for the case that \<^verbatim>\<open>wkhtmltoimage\<close> is
  unavailable and the default browser for the case that all automatic methods fail, and
  although the Playwright function beside it catches every exception and lets the sequence
  go on. Where starting \<^verbatim>\<open>wkhtmltoimage\<close> raises \<^verbatim>\<open>PermissionError\<close>, the call returns \<open>False\<close>
  after this one action: no browser is tried and the default browser is not opened.
\<close>

theorem convert_html_to_png_aborts:
  "\<not> fst (convert_html_to_png env_denied ''report.html'' ''report.png'' world_empty) \<and>
   events (snd (convert_html_to_png env_denied ''report.html'' ''report.png'' world_empty)) =
     [EvRun [''wkhtmltoimage'', ''--quality'', ''100'', ''report.html'', ''report.png'']]"
  by (simp add: convert_eval env_bare_def env_denied_def world_empty_def)

text \<open>
  What the code does keep of the claim. A failure that a handler inside
  \<open>convert_html_to_png\<close> catches (a command that raises \<^verbatim>\<open>SubprocessError\<close>, as on a non-zero
  exit, or \<^verbatim>\<open>FileNotFoundError\<close>; any exception of a Playwright call) is never the last
  action: the sequence goes on. Only a command that raises another exception ends the
  sequence. The result is \<open>True\<close> exactly when some attempt
  completed with the destination file present. When the result is \<open>False\<close>, the last action
  is either such an uncaught failure or the opening of the HTML file in the default browser;
  and whenever the default browser was opened last, the result is \<open>False\<close>.
\<close>

lemma convert_html_to_png_handled_failures:
  assumes "convert_html_to_png E html png w = (b, w')"
  shows "new_log w w' \<noteq> [] \<and>
     \<not> handled_failure (last (new_log w w')) \<and>
     (\<forall>x\<in>set (butlast (new_log w w')). \<not> uncaught_failure x) \<and>
     (b \<longleftrightarrow> (\<exists>x\<in>set (new_log w w'). attempt_ok png x)) \<and>
     (\<not> b \<longrightarrow> uncaught_failure (last (new_log w w')) \<or>
               fst (last (new_log w w')) = EvWebOpen (file_url E html)) \<and>
     (fst (last (new_log w w')) = EvWebOpen (file_url E html) \<longrightarrow> \<not> b)"
proof -
  note s = convert_html_to_png_summary [OF assms refl]
  let ?seg = "new_log w w'"
  have web: "\<not> attempt_ok png x \<and> \<not> uncaught_failure x \<and> \<not> handled_failure x"
    if "fst x = EvWebOpen u" for x u
    using that by (cases x) auto
  from s(2) have split: "?seg = butlast ?seg @ [last ?seg]" by simp
  have mem: "(\<exists>x\<in>set ?seg. attempt_ok png x) \<longleftrightarrow> attempt_ok png (last ?seg)"
  proof
    assume "\<exists>x\<in>set ?seg. attempt_ok png x"
    then obtain x where x: "x \<in> set ?seg" "attempt_ok png x" by blast
    from x(1) split have "x \<in> set (butlast ?seg) \<or> x = last ?seg"
      by (metis Un_iff insert_iff list.set(2) set_append empty_iff list.set(1))
    with x(2) s(4) show "attempt_ok png (last ?seg)" by blast
  next
    assume "attempt_ok png (last ?seg)"
    with s(2) show "\<exists>x\<in>set ?seg. attempt_ok png x" by (meson last_in_set)
  qed
  have h: "\<not> handled_failure (last ?seg)"
  proof -
    from s(5) consider "attempt_ok png (last ?seg)" | "uncaught_failure (last ?seg)"
      | "fst (last ?seg) = EvWebOpen (file_url E html)" by blast
    then show ?thesis
    proof cases
      case 1 then show ?thesis by (simp add: attempt_ok_not_failure)
    next
      case 2 then show ?thesis by (simp add: uncaught_not_handled)
    next
      case 3 then show ?thesis by (simp add: web)
    qed
  qed
  from s(5) have bl: "b \<longleftrightarrow> attempt_ok png (last ?seg)"
    by (auto dest: uncaught_not_handled)
  from s(5) have nb: "\<not> b \<longrightarrow> uncaught_failure (last ?seg) \<or>
               fst (last ?seg) = EvWebOpen (file_url E html)" by auto
  from s(5) have wb: "fst (last ?seg) = EvWebOpen (file_url E html) \<longrightarrow> \<not> b"
    using web by blast
  from s(2) s(4) h bl mem nb wb show ?thesis by blast
qed

text \<open>
  Where every command is missing, each failure is followed by the next attempt, down to the
  default browser, and the result is \<open>False\<close>.
\<close>

lemma bare_run_reaches_fallback:
  "\<not> fst (convert_html_to_png env_bare ''report.html'' ''report.png'' world_empty) \<and>
   \<not> handled_failure (last (new_log world_empty
        (snd (convert_html_to_png env_bare ''report.html'' ''report.png'' world_empty)))) \<and>
   events (snd (convert_html_to_png env_bare ''report.html'' ''report.png'' world_empty)) =
     [EvRun [''wkhtmltoimage'', ''--quality'', ''100'', ''report.html'', ''report.png''],
      EvRun [''chrome'', ''--headless'', ''--disable-gpu'', ''--screenshot=report.png'',
             ''file:///work/report.html''],
      EvRun [''msedge'', ''--headless'', ''--disable-gpu'', ''--screenshot=report.png'',
             ''file:///work/report.html''],
      EvWebOpen ''file:///work/report.html'']"
proof -
  let ?r = "convert_html_to_png env_bare ''report.html'' ''report.png'' world_empty"
  have p: "?r = (fst ?r, snd ?r)" by simp
  have e: "\<not> fst ?r" "events (snd ?r) =
     [EvRun [''wkhtmltoimage'', ''--quality'', ''100'', ''report.html'', ''report.png''],
      EvRun [''chrome'', ''--headless'', ''--disable-gpu'', ''--screenshot=report.png'',
             ''file:///work/report.html''],
      EvRun [''msedge'', ''--headless'', ''--disable-gpu'', ''--screenshot=report.png'',
             ''file:///work/report.html''],
      EvWebOpen ''file:///work/report.html'']"
    by (simp_all add: convert_eval env_bare_def world_empty_def)
  from convert_html_to_png_handled_failures [OF p]
  have "\<not> handled_failure (last (new_log world_empty (snd ?r)))" by blast
  with e show ?thesis by blast
qed

section \<open>Properties of the converter and of the orchestrators\<close>

subsection \<open>C9: the blocking and the non-blocking variant\<close>

lemma scripts_equal: "images_loaded_script_async = images_loaded_script_sync"
  by (simp add: images_loaded_script_async_def images_loaded_script_sync_def)

text \<open>
  Claim C9. Let the asynchronous interface of Playwright answer as the synchronous one
  does: the import of either module fails or succeeds alike, and every call raises the same
  and leaves the same files, in every world. Then for every HTML path, image path and set of
  options (viewport width and height, scale factor, timeout, wait time, full-page flag),
  \<^verbatim>\<open>_convert_html_to_image_async\<close> and \<^verbatim>\<open>_convert_html_to_image\<close> return the same pair of
  success flag and image path and leave the same world: the same files, so the same image,
  and the same log, so the same calls with the same arguments in the same order. The two
  differ in the interface they call and in nothing else.
\<close>

theorem render_variants_agree:
  assumes "import_raises E ''playwright.async_api'' = import_raises E ''playwright.sync_api''"
    and "\<forall>c w. pw_raises E AsyncApi c w = pw_raises E SyncApi c w"
    and "\<forall>c w. pw_effect E AsyncApi c w = pw_effect E SyncApi c w"
  shows "converter_convert_html_to_image_async E html_file_path img_path opts w =
         converter_convert_html_to_image E html_file_path img_path opts w"
proof -
  have pw: "do_pw E AsyncApi c = do_pw E SyncApi c" for c
    by (rule ext) (simp add: do_pw_def assms(2,3))
  have cv: "wait_for_canvas E AsyncApi p = wait_for_canvas E SyncApi p" for p
    by (rule ext) (simp only: wait_for_canvas_def pw)
  show ?thesis
    unfolding converter_convert_html_to_image_async_def converter_convert_html_to_image_def
      pw cv scripts_equal assms(1) ..
qed

lemmas render_eval =
  converter_convert_html_to_image_async_def converter_convert_html_to_image_def
  wait_for_canvas_def read_text_def ignoring_errors_def do_pw_def path_exists_def Let_def
  events_def

text \<open>
  With the default options on a page that holds a canvas, both variants make these nine
  calls and return the absolute path of the image.
\<close>

theorem render_variants_agree_witness:
  "converter_convert_html_to_image_async env_playwright ''report.html'' ''report.png''
      default_options world_report =
   converter_convert_html_to_image env_playwright ''report.html'' ''report.png''
      default_options world_report \<and>
   fst (converter_convert_html_to_image env_playwright ''report.html'' ''report.png''
      default_options world_report) = (True, Some ''/work/report.png'') \<and>
   events (snd (converter_convert_html_to_image env_playwright ''report.html'' ''report.png''
      default_options world_report)) =
     map EvPw
       [Launch [''--disable-web-security'', ''--allow-file-access-from-files''],
        NewPage (Some (1200, 800, 3 / 2)),
        Goto ''file:///work/report.html'' (Some 60000) (Some ''domcontentloaded''),
        WaitForLoadState ''networkidle'' (Some 60000),
        WaitForTimeout 5000,
        WaitForSelector ''canvas'' 5000,
        Evaluate images_loaded_script_sync,
        Screenshot ''/work/report.png'' True (Some False),
        Close]"
proof -
  have "converter_convert_html_to_image_async env_playwright ''report.html'' ''report.png''
      default_options world_report =
   converter_convert_html_to_image env_playwright ''report.html'' ''report.png''
      default_options world_report"
    by (rule render_variants_agree) (simp_all add: env_playwright_def env_bare_def)
  moreover have "fst (converter_convert_html_to_image env_playwright ''report.html'' ''report.png''
      default_options world_report) = (True, Some ''/work/report.png'')"
    by (simp add: render_eval env_playwright_def env_bare_def world_report_def default_options_def)
  moreover have "events (snd (converter_convert_html_to_image env_playwright ''report.html'' ''report.png''
      default_options world_report)) =
     map EvPw
       [Launch [''--disable-web-security'', ''--allow-file-access-from-files''],
        NewPage (Some (1200, 800, 3 / 2)),
        Goto ''file:///work/report.html'' (Some 60000) (Some ''domcontentloaded''),
        WaitForLoadState ''networkidle'' (Some 60000),
        WaitForTimeout 5000,
        WaitForSelector ''canvas'' 5000,
        Evaluate images_loaded_script_sync,
        Screenshot ''/work/report.png'' True (Some False),
        Close]"
    by (simp add: render_eval env_playwright_def env_bare_def world_report_def default_options_def)
  ultimately show ?thesis by blast
qed

subsection \<open>C3: what a result says\<close>

lemma converter_result:
  assumes "converter_convert_html_to_image E h i opts w = ((s, p), w')"
  shows "(s \<longrightarrow> p = Some (abspath E i) \<and> path_exists w' (abspath E i)) \<and> (\<not> s \<longrightarrow> p = None)"
  using assms unfolding converter_convert_html_to_image_def Let_def
  by (auto split: option.splits prod.splits if_splits simp del: run_steps.simps)

lemma converter_async_result:
  assumes "converter_convert_html_to_image_async E h i opts w = ((s, p), w')"
  shows "(s \<longrightarrow> p = Some (abspath E i) \<and> path_exists w' (abspath E i)) \<and> (\<not> s \<longrightarrow> p = None)"
  using assms unfolding converter_convert_html_to_image_async_def Let_def
  by (auto split: option.splits prod.splits if_splits simp del: run_steps.simps)

lemma convert_true_exists:
  assumes "convert_html_to_png E h p w = (True, w')"
  shows "path_exists w' p"
  using convert_html_to_png_summary(5) [OF assms refl] by blast

lemma remove_best_effort_keeps:
  assumes "p \<noteq> t" "path_exists w p"
  shows "path_exists (remove_best_effort E t w) p"
  using assms by (auto simp: remove_best_effort_def do_event_def Let_def path_exists_def)

lemma render_and_clean_result:
  assumes "render_and_clean E temp h pp w = (Inr (s, png), w')"
    and "s" and "temp \<noteq> Some png"
  shows "path_exists w' png"
proof -
  obtain b w2 where c: "convert_html_to_png E h png w = (b, w2)"
    by (cases "convert_html_to_png E h png w")
  from assms(1) have png: "png = (case pp of Some p \<Rightarrow> p | None \<Rightarrow> splitext_root E h @ ''.png'')"
    by (auto simp: render_and_clean_def Let_def split: prod.splits)
  from assms(1) c png have b: "b = s"
    and w': "w' = (case temp of Some t \<Rightarrow> if s then remove_best_effort E t w2 else w2 | None \<Rightarrow> w2)"
    by (auto simp: render_and_clean_def Let_def split: prod.splits)
  from c b assms(2) have e: "path_exists w2 png" by (auto intro: convert_true_exists)
  show ?thesis
  proof (cases temp)
    case None
    with w' e show ?thesis by simp
  next
    case (Some t)
    with assms(3) have ne: "png \<noteq> t" by auto
    from ne e have "path_exists (remove_best_effort E t w2) png" by (rule remove_best_effort_keeps)
    with w' Some assms(2) show ?thesis by simp
  qed
qed

lemma html_to_png_result:
  assumes "html_to_png E c hp pp w = (Inr (s, png), w')"
    and "s" and "c = None \<or> png \<noteq> temp_file_path E"
  shows "path_exists w' png"
proof (cases c)
  case None
  with assms(1) obtain h where "render_and_clean E None h pp w = (Inr (s, png), w')"
    by (auto simp: html_to_png_def split: option.splits)
  then show ?thesis using assms(2) by (rule render_and_clean_result) simp
next
  case (Some content)
  with assms(1) obtain w1 where
    "render_and_clean E (Some (temp_file_path E)) (temp_file_path E) pp w1 = (Inr (s, png), w')"
    by (auto simp: html_to_png_def split: option.splits prod.splits)
  then show ?thesis using assms(2)
    by (rule render_and_clean_result) (use Some assms(3) in auto)
qed

text \<open>
  Claim C3, as the code has it. A result of \<^verbatim>\<open>_convert_html_to_image\<close> and of its
  non-blocking variant obeys the invariant: with the success flag set, the path is the
  absolute image path and the file exists there when the function returns; with the flag
  unset, there is no path. \<^verbatim>\<open>html_to_png\<close> returns its pair of flag and PNG path with the
  path always set, also on failure; with the flag set, the file exists at the path when the
  function returns, unless the path is that of the temporary HTML file, which the function
  then removes.
\<close>

theorem render_result_invariant:
  "(converter_convert_html_to_image E h i opts w = ((s, p), w') \<longrightarrow>
      (s \<longrightarrow> p = Some (abspath E i) \<and> path_exists w' (abspath E i)) \<and> (\<not> s \<longrightarrow> p = None)) \<and>
   (converter_convert_html_to_image_async E h2 i2 opts2 w2 = ((s2, p2), w2') \<longrightarrow>
      (s2 \<longrightarrow> p2 = Some (abspath E i2) \<and> path_exists w2' (abspath E i2)) \<and> (\<not> s2 \<longrightarrow> p2 = None)) \<and>
   (html_to_png E c hp pp w3 = (Inr (s3, png), w3') \<longrightarrow>
      (s3 \<and> (c = None \<or> png \<noteq> temp_file_path E) \<longrightarrow> path_exists w3' png))"
proof (intro conjI impI)
  assume a: "converter_convert_html_to_image E h i opts w = ((s, p), w')"
  { assume s then show "p = Some (abspath E i)" using converter_result [OF a] by simp }
  { assume s then show "path_exists w' (abspath E i)" using converter_result [OF a] by simp }
  { assume "\<not> s" then show "p = None" using converter_result [OF a] by simp }
next
  assume a: "converter_convert_html_to_image_async E h2 i2 opts2 w2 = ((s2, p2), w2')"
  { assume s2 then show "p2 = Some (abspath E i2)" using converter_async_result [OF a] by simp }
  { assume s2 then show "path_exists w2' (abspath E i2)" using converter_async_result [OF a] by simp }
  { assume "\<not> s2" then show "p2 = None" using converter_async_result [OF a] by simp }
next
  assume a: "html_to_png E c hp pp w3 = (Inr (s3, png), w3')"
    and b: "s3 \<and> (c = None \<or> png \<noteq> temp_file_path E)"
  from a b show "path_exists w3' png" by (blast intro: html_to_png_result)
qed

lemmas html_to_png_eval =
  html_to_png_def render_and_clean_def write_temp_file_def temp_file_path_def
  remove_best_effort_def convert_eval

text \<open>A successful run of each kind.\<close>

theorem render_result_invariant_witness:
  "fst (html_to_png env_chrome None (Some ''report.html'') None world_chrome) = Inr (True, ''report.png'') \<and>
   path_exists (snd (html_to_png env_chrome None (Some ''report.html'') None world_chrome)) ''report.png'' \<and>
   fst (converter_convert_html_to_image env_playwright ''report.html'' ''report.png''
          default_options world_report) = (True, Some ''/work/report.png'') \<and>
   path_exists (snd (converter_convert_html_to_image env_playwright ''report.html'' ''report.png''
          default_options world_report)) ''/work/report.png''"
proof -
  let ?r = "html_to_png env_chrome None (Some ''report.html'') None world_chrome"
  let ?c = "converter_convert_html_to_image env_playwright ''report.html'' ''report.png''
          default_options world_report"
  have r: "fst ?r = Inr (True, ''report.png'')"
    by (simp add: html_to_png_eval env_chrome_def env_bare_def world_chrome_def chrome_exe_def
        strip_ext_def)
  then have p: "?r = (Inr (True, ''report.png''), snd ?r)" by (metis prod.collapse)
  have c: "fst ?c = (True, Some ''/work/report.png'')"
    by (simp add: render_eval env_playwright_def env_bare_def world_report_def default_options_def)
  then have q: "?c = ((True, Some ''/work/report.png''), snd ?c)" by (metis prod.collapse)
  have a: "abspath env_playwright ''report.png'' = ''/work/report.png''"
    by (simp add: env_playwright_def env_bare_def)
  from render_result_invariant [of env_chrome _ _ _ _ _ _ _ _ _ _ _ _ _ _ None "Some ''report.html''" None
      world_chrome True "''report.png''" "snd ?r"] p
  have "path_exists (snd ?r) ''report.png''" by simp
  moreover
  from render_result_invariant [of env_playwright "''report.html''" "''report.png''" default_options
      world_report True "Some ''/work/report.png''" "snd ?c"] q a
  have "path_exists (snd ?c) ''/work/report.png''" by simp
  ultimately show ?thesis using r c by blast
qed

text \<open>
  Where nothing is installed, \<^verbatim>\<open>html_to_png\<close> on a piece of HTML fails and still returns the
  path of the PNG it did not produce.
\<close>

theorem html_to_png_failure_keeps_path:
  "fst (html_to_png env_bare (Some ''<p>hi</p>'') None None world_empty)
     = Inr (False, ''output/temp_20250101_120000.png'')"
  by (simp add: html_to_png_eval env_bare_def world_empty_def strip_ext_def)

subsection \<open>C8: no source at all\<close>

text \<open>
  Claim C8, as the code has it. When both the content and the HTML path are absent
  (\<^verbatim>\<open>None\<close>), \<^verbatim>\<open>html_to_png\<close> raises \<^verbatim>\<open>ValueError\<close> and the client \<^verbatim>\<open>convert_html_to_image\<close>
  returns failure without a path, both at once: the world is as before, so no file was
  written, no backend and no service was tried, and nothing was retried.
\<close>

theorem missing_source_rejected:
  "html_to_png E None None png_file_path w = (Inl ValueError, w) \<and>
   convert_html_to_image E None None png_file_path w = ((False, None), w)"
  by (simp add: html_to_png_def convert_html_to_image_def)

text \<open>
  An empty string is not absent: with the empty content and no path, \<^verbatim>\<open>html_to_png\<close> creates
  the output directory, writes an empty temporary file and goes through the backends.
\<close>

theorem empty_content_accepted:
  "fst (html_to_png env_bare (Some []) None None world_empty)
     = Inr (False, ''output/temp_20250101_120000.png'') \<and>
   take 3 (events (snd (html_to_png env_bare (Some []) None None world_empty)))
     = [EvMakeDirs ''output'', EvWrite ''output/temp_20250101_120000.html'' [],
        EvRun [''wkhtmltoimage'', ''--quality'', ''100'', ''output/temp_20250101_120000.html'',
               ''output/temp_20250101_120000.png'']]"
  by (simp add: html_to_png_eval env_bare_def world_empty_def strip_ext_def)

subsection \<open>C10: the temporary file of \<^verbatim>\<open>convert_html_string\<close>\<close>

lemma appends_do_pw: "appends (do_pw E a c)"
  by (simp add: appends_def do_pw_def Let_def)

lemma appends_do_event: "appends (do_event E ev)"
  by (simp add: appends_def do_event_def Let_def)

lemma appends_ignoring: "appends s \<Longrightarrow> appends (ignoring_errors s)"
  by (simp add: appends_def ignoring_errors_def)

lemma appends_run_steps: "\<forall>s\<in>set ss. appends s \<Longrightarrow> appends (run_steps ss)"
proof (induction ss)
  case Nil
  then show ?case by (simp add: appends_def)
next
  case (Cons s ss)
  then have s: "appends s" and r: "appends (run_steps ss)" by simp_all
  show ?case
    unfolding appends_def
  proof
    fix w
    obtain r1 w1 where e: "s w = (r1, w1)" by (cases "s w")
    from s e have p1: "prefix (log w) (log w1)" by (auto simp: appends_def dest: spec [of _ w])
    show "prefix (log w) (log (snd (run_steps (s # ss) w)))"
    proof (cases r1)
      case None
      from r have "prefix (log w1) (log (snd (run_steps ss w1)))" by (simp add: appends_def)
      with p1 e None show ?thesis by (auto intro: prefix_order.order_trans)
    next
      case (Some x)
      with p1 e show ?thesis by simp
    qed
  qed
qed

lemma appends_wait_for_canvas: "appends (wait_for_canvas E a p)"
proof -
  have "appends (ignoring_errors (do_pw E a (WaitForSelector ''canvas'' 5000)))"
    by (intro appends_ignoring appends_do_pw)
  then show ?thesis
    by (auto simp: appends_def wait_for_canvas_def split: sum.splits)
qed

lemma converter_log:
  "prefix (log w) (log (snd (converter_convert_html_to_image E h i opts w)))"
proof (cases "import_raises E ''playwright.sync_api''")
  case (Some e)
  then show ?thesis by (simp add: converter_convert_html_to_image_def)
next
  case None
  let ?steps = "[do_pw E SyncApi
                    (Launch [''--disable-web-security'', ''--allow-file-access-from-files'']),
                  do_pw E SyncApi
                    (NewPage (Some (viewport_width opts, viewport_height opts, scale_factor opts))),
                  ignoring_errors
                    (run_steps
                       [do_pw E SyncApi
                          (Goto (''file://'' @ abspath E h) (Some (timeout opts))
                             (Some ''domcontentloaded'')),
                        do_pw E SyncApi (WaitForLoadState ''networkidle'' (Some (timeout opts)))]),
                  do_pw E SyncApi (WaitForTimeout (wait_time opts)),
                  wait_for_canvas E SyncApi (abspath E h),
                  do_pw E SyncApi (Evaluate images_loaded_script_sync),
                  do_pw E SyncApi (Screenshot (abspath E i) (full_page opts) (Some False)),
                  do_pw E SyncApi Close]"
  have "appends (run_steps ?steps)"
    by (intro appends_run_steps)
       (auto intro!: appends_do_pw appends_ignoring appends_run_steps appends_wait_for_canvas)
  then have p: "prefix (log w) (log (snd (run_steps ?steps w)))" by (simp add: appends_def)
  obtain r w1 where e: "run_steps ?steps w = (r, w1)" by (cases "run_steps ?steps w")
  with None have "snd (converter_convert_html_to_image E h i opts w) = w1"
    unfolding converter_convert_html_to_image_def Let_def
    by (auto split: option.splits simp del: run_steps.simps)
  with p e show ?thesis by simp
qed

lemma remove_best_effort_cases:
  "(remove_best_effort E t w = w \<and> \<not> path_exists w t) \<or>
   (\<not> path_exists (remove_best_effort E t w) t \<and>
      (\<exists>f. log (remove_best_effort E t w) = log w @ [(EvRemove t, None, f)])) \<or>
   (\<exists>e f. log (remove_best_effort E t w) = log w @ [(EvRemove t, Some e, f)])"
  by (cases "raises E (EvRemove t) w")
     (auto simp: remove_best_effort_def do_event_def Let_def path_exists_def)

text \<open>
  Claim C10, as the code has it. Take a call of \<^verbatim>\<open>convert_html_string\<close> with
  \<^verbatim>\<open>delete_html=True\<close> that returns. Its first action is the write of the temporary file.
  If the write raised, the call has returned \<open>(False, None)\<close> at once: nothing is rendered
  and no removal is tried, so what the failed write left of the file stays. If the write
  succeeded, then, whether the rendering succeeded or failed, the temporary file no longer
  exists when the call returns, unless its removal was tried as the last action and raised
  (the removal is best effort). On failure the result carries no image path. The state is
  not left as it was: the log, and with it the world, has grown by the write and by what
  followed it.
\<close>

theorem convert_html_string_cleanup:
  assumes "converter_convert_html_string E self html_content image_name True kw w
             = (Inr (success, image_path), w')"
  shows "(\<exists>r f rest.
            log w' = log w @ (EvWrite (abspath E (temp_html_path E self)) html_content, r, f) # rest \<and>
            (r \<noteq> None \<longrightarrow> rest = [] \<and> \<not> success) \<and>
            (r = None \<and> path_exists w' (abspath E (temp_html_path E self)) \<longrightarrow>
               (\<exists>e g. last (log w') = (EvRemove (abspath E (temp_html_path E self)), Some e, g)))) \<and>
         (\<not> success \<longrightarrow> image_path = None)"
proof -
  let ?p = "temp_html_path E self"
  let ?t = "abspath E ?p"
  let ?name = "case image_name of None \<Rightarrow> ''image_'' @ now E @ ''.png''
                  | Some n \<Rightarrow> if ends_with_png n then n else n @ ''.png''"
  obtain r1 w1 where d: "do_event E (EvWrite ?t html_content) w = (r1, w1)"
    by (cases "do_event E (EvWrite ?t html_content) w")
  from d have l1: "log w1 = log w @ [(EvWrite ?t html_content, r1, files w1)]"
    by (rule do_event_log)
  show ?thesis
  proof (cases r1)
    case (Some e)
    with assms d have e: "\<not> success" "image_path = None" "w' = w1"
      by (simp_all add: converter_convert_html_string_def Let_def)
    from l1 e(3) Some have "log w' = log w @ (EvWrite ?t html_content, Some e, files w1) # []"
      by simp
    with e(1,2) show ?thesis by blast
  next
    case None
    from assms d None obtain opts where b: "bind_kwargs kw = Inr opts"
      by (cases "bind_kwargs kw") (simp_all add: converter_convert_html_string_def Let_def)
    obtain res w2 where c: "converter_convert_html_to_image E ?p (join E (image_dir self) ?name) opts w1
        = (res, w2)"
      by (cases "converter_convert_html_to_image E ?p (join E (image_dir self) ?name) opts w1")
    from assms d None b c have e: "res = (success, image_path)" "w' = remove_best_effort E ?t w2"
      by (simp_all add: converter_convert_html_string_def Let_def)
    from c e(1) have inv: "\<not> success \<longrightarrow> image_path = None"
      using converter_result by blast
    from converter_log [of w1 E ?p "join E (image_dir self) ?name" opts] c
    have "prefix (log w1) (log w2)" by simp
    then obtain mid where l2: "log w2 = log w1 @ mid" by (auto simp: prefix_def)
    from remove_best_effort_cases [of E ?t w2]
    have surv: "path_exists w' ?t \<longrightarrow> (\<exists>e g. last (log w') = (EvRemove ?t, Some e, g))"
      unfolding e(2) by auto
    from remove_best_effort_cases [of E ?t w2]
    obtain tl where "log w' = log w2 @ tl" unfolding e(2) by auto
    with l1 l2 None have "log w' = log w @ (EvWrite ?t html_content, None, files w1) # (mid @ tl)"
      by simp
    with inv surv show ?thesis by blast
  qed
qed

lemmas convert_html_string_eval =
  converter_convert_html_string_def temp_html_path_def remove_best_effort_def do_event_def
  bind_kwargs_def no_kwargs_def default_options_def render_eval

text \<open>
  Where Playwright works the conversion succeeds; the temporary file is written, read by
  the renderer and removed as the last action, and nothing of it is left.
\<close>

theorem convert_html_string_cleanup_witness:
  "fst (converter_convert_html_string env_playwright converter_default ''<p>hi</p>'' None True
          no_kwargs world_empty)
     = Inr (True, Some ''/work/output/images/image_20250101_120000.png'') \<and>
   \<not> path_exists (snd (converter_convert_html_string env_playwright converter_default ''<p>hi</p>''
          None True no_kwargs world_empty)) ''/work/output/html_files/temp_20250101_120000.html'' \<and>
   path_exists (snd (converter_convert_html_string env_playwright converter_default ''<p>hi</p>''
          None True no_kwargs world_empty)) ''/work/output/images/image_20250101_120000.png'' \<and>
   hd (events (snd (converter_convert_html_string env_playwright converter_default ''<p>hi</p>''
          None True no_kwargs world_empty)))
     = EvWrite ''/work/output/html_files/temp_20250101_120000.html'' ''<p>hi</p>'' \<and>
   last (events (snd (converter_convert_html_string env_playwright converter_default ''<p>hi</p>''
          None True no_kwargs world_empty)))
     = EvRemove ''/work/output/html_files/temp_20250101_120000.html''"
proof -
  let ?r = "converter_convert_html_string env_playwright converter_default ''<p>hi</p>'' None True
          no_kwargs world_empty"
  let ?t = "''/work/output/html_files/temp_20250101_120000.html''"
  have t: "abspath env_playwright (temp_html_path env_playwright converter_default) = ?t"
    by (simp add: temp_html_path_def env_playwright_def env_bare_def converter_default_def)
  have res: "fst ?r = Inr (True, Some ''/work/output/images/image_20250101_120000.png'')"
    and img: "path_exists (snd ?r) ''/work/output/images/image_20250101_120000.png''"
    and h: "hd (log (snd ?r)) = (EvWrite ?t ''<p>hi</p>'', None, [?t \<mapsto> ''<p>hi</p>''])"
    and lst: "fst (snd (last (log (snd ?r)))) = None"
    and le: "last (events (snd ?r)) = EvRemove ?t"
    and w0: "log world_empty = []"
    by (simp_all add: convert_html_string_eval env_playwright_def env_bare_def
          converter_default_def world_empty_def)
  from res have p: "?r = (Inr (True, Some ''/work/output/images/image_20250101_120000.png''), snd ?r)"
    by (simp add: prod_eq_iff)
  from convert_html_string_cleanup [OF p] obtain r f rest where
    l: "log (snd ?r) = log world_empty @ (EvWrite ?t ''<p>hi</p>'', r, f) # rest"
    and s: "r = None \<and> path_exists (snd ?r) ?t \<longrightarrow>
              (\<exists>e g. last (log (snd ?r)) = (EvRemove ?t, Some e, g))"
    unfolding t by blast
  from l w0 h have "r = None" by simp
  with s lst have gone: "\<not> path_exists (snd ?r) ?t" by auto
  from h have he: "hd (events (snd ?r)) = EvWrite ?t ''<p>hi</p>''"
    using l w0 by (simp add: events_def)
  from res gone img he le show ?thesis by blast
qed

text \<open>
  Where the write of the temporary file raises after the file has been created (the disk
  is full, or the text cannot be encoded), the call returns \<open>(False, None)\<close> and the file
  is left on disk: the write is the only action, no removal is tried.
\<close>

theorem convert_html_string_write_fails:
  "fst (converter_convert_html_string env_disk_full converter_default ''<p>hi</p>'' None True
          no_kwargs world_empty) = Inr (False, None) \<and>
   path_exists (snd (converter_convert_html_string env_disk_full converter_default ''<p>hi</p>''
          None True no_kwargs world_empty)) ''/work/output/html_files/temp_20250101_120000.html'' \<and>
   events (snd (converter_convert_html_string env_disk_full converter_default ''<p>hi</p>''
          None True no_kwargs world_empty)) =
     [EvWrite ''/work/output/html_files/temp_20250101_120000.html'' ''<p>hi</p>'']"
  by (simp add: convert_html_string_eval env_disk_full_def env_playwright_def env_bare_def
        converter_default_def world_empty_def)

text \<open>
  Where Playwright is missing the conversion fails; the temporary file is written and
  removed, and nothing of it is left.
\<close>

lemma convert_html_string_failed_run:
  "fst (converter_convert_html_string env_bare converter_default ''<p>hi</p>'' None True
          no_kwargs world_empty) = Inr (False, None) \<and>
   \<not> path_exists (snd (converter_convert_html_string env_bare converter_default ''<p>hi</p>'' None
          True no_kwargs world_empty)) ''/work/output/html_files/temp_20250101_120000.html'' \<and>
   events (snd (converter_convert_html_string env_bare converter_default ''<p>hi</p>'' None
          True no_kwargs world_empty)) =
     [EvWrite ''/work/output/html_files/temp_20250101_120000.html'' ''<p>hi</p>'',
      EvRemove ''/work/output/html_files/temp_20250101_120000.html'']"
  by (simp add: convert_html_string_eval env_bare_def converter_default_def world_empty_def)

text \<open>
  A keyword argument that the renderer does not accept: the call does not return, it
  raises \<^verbatim>\<open>TypeError\<close> after the write, and the temporary file stays. This holds on every
  machine on which the write succeeds.
\<close>

lemma convert_html_string_unknown_keyword:
  assumes "kw_others kw \<noteq> []"
    and "raises E (EvWrite (abspath E (temp_html_path E self)) html_content) w = None"
    and "converter_convert_html_string E self html_content image_name delete_html kw w = (r, w')"
  shows "r = Inl TypeError \<and>
         files w' (abspath E (temp_html_path E self)) = Some html_content \<and>
         new_log w w' = [(EvWrite (abspath E (temp_html_path E self)) html_content, None, files w')]"
  using assms
  by (auto simp: converter_convert_html_string_def do_event_def bind_kwargs_def Let_def new_log_def)

end
